theory Spec2Isabelle
  imports Main "HOL-Library.Word"
begin

unbundle bit_operations_syntax

section \<open>The trace stream reader of trace.c\<close>

text \<open>
  A shallow embedding of \<^verbatim>\<open>trace.c\<close>: the merge over the per-CPU buffers
  (\<^verbatim>\<open>__find_next_entry\<close>), the lookup of event classes (\<^verbatim>\<open>find_print_event\<close>),
  the line formatter (\<^verbatim>\<open>print_trace_fmt_line\<close>), the read call
  (\<^verbatim>\<open>trace_wait_pipe\<close>, \<^verbatim>\<open>trace_read_pipe\<close>) and startup and teardown
  (\<^verbatim>\<open>print_event_init\<close>, \<^verbatim>\<open>print_event_exit\<close>).

  The kernel interfaces the file calls (the ring buffer, \<^verbatim>\<open>trace_seq\<close>,
  \<^verbatim>\<open>copy_to_user\<close>, the proc file system) are modelled by what they do to the
  data \<^verbatim>\<open>trace.c\<close> sees. The mutexes are left out: the model is of one reader
  at a time.
\<close>

subsection \<open>Machine types and error numbers\<close>

type_synonym u64 = "64 word"
type_synonym ulong = "64 word"

definition EINTR :: int where "EINTR = 4"
definition EAGAIN :: int where "EAGAIN = 11"
definition ENOMEM :: int where "ENOMEM = 12"
definition EFAULT :: int where "EFAULT = 14"
definition EBUSY :: int where "EBUSY = 16"
definition ENODEV :: int where "ENODEV = 19"
definition EINVAL :: int where "EINVAL = 22"

subsection \<open>Records and the ring buffer store\<close>

text \<open>
  Modelled from the spec: \<^verbatim>\<open>struct print_event_entry\<close> is declared in
  \<^verbatim>\<open>trace.h\<close>, which is not among the sources. The spec gives a record an
  unsigned \<^verbatim>\<open>id\<close> of 16 bits or fewer and an opaque payload; \<^verbatim>\<open>trace.c\<close>
  reads the \<^verbatim>\<open>id\<close> only, promoted to \<^verbatim>\<open>int\<close>.
\<close>

record print_event_entry =
  entry_id :: nat
  payload :: string

text \<open>
  One event of a per-CPU buffer as \<^verbatim>\<open>ring_buffer_peek\<close> reports it: its time
  stamp, the number of events lost before it, and its data. A per-CPU buffer is the
  list of its unconsumed events, oldest first; the store is the list of the per-CPU
  buffers, indexed by CPU number.
\<close>

record ring_buffer_event =
  ev_ts :: u64
  ev_lost :: ulong
  ev_data :: print_event_entry

type_synonym ring_buffer = "ring_buffer_event list list"

definition for_each_possible_cpu :: "ring_buffer \<Rightarrow> nat list" where
  "for_each_possible_cpu b = [0..<length b]"

definition ring_buffer_empty_cpu :: "ring_buffer \<Rightarrow> nat \<Rightarrow> bool" where
  "ring_buffer_empty_cpu b cpu = (if cpu < length b then b ! cpu = [] else True)"

definition ring_buffer_peek :: "ring_buffer \<Rightarrow> nat \<Rightarrow> ring_buffer_event option" where
  "ring_buffer_peek b cpu =
     (if cpu < length b then (case b ! cpu of [] \<Rightarrow> None | e # _ \<Rightarrow> Some e) else None)"

text \<open>
  \<^verbatim>\<open>ring_buffer_consume\<close> removes the oldest event of the CPU and reports it as
  \<^verbatim>\<open>ring_buffer_peek\<close> does.
\<close>

definition ring_buffer_consume :: "ring_buffer \<Rightarrow> nat \<Rightarrow> ring_buffer_event option \<times> ring_buffer" where
  "ring_buffer_consume b cpu =
     (if cpu < length b
      then (case b ! cpu of [] \<Rightarrow> (None, b) | e # es \<Rightarrow> (Some e, b[cpu := es]))
      else (None, b))"

subsection \<open>The merge: \<^verbatim>\<open>is_trace_empty\<close>, \<^verbatim>\<open>peek_next_entry\<close>, \<^verbatim>\<open>__find_next_entry\<close>\<close>

fun is_trace_empty_scan :: "ring_buffer \<Rightarrow> nat list \<Rightarrow> bool" where
  "is_trace_empty_scan b [] = True"
| "is_trace_empty_scan b (cpu # cpus) =
     (if \<not> ring_buffer_empty_cpu b cpu then False else is_trace_empty_scan b cpus)"

definition is_trace_empty :: "ring_buffer \<Rightarrow> bool" where
  "is_trace_empty b = is_trace_empty_scan b (for_each_possible_cpu b)"

text \<open>The entry, with the time stamp and the lost-event count written through the pointers.\<close>

definition peek_next_entry :: "ring_buffer \<Rightarrow> nat \<Rightarrow> (print_event_entry \<times> u64 \<times> ulong) option" where
  "peek_next_entry b cpu =
     (case ring_buffer_peek b cpu of
        Some event \<Rightarrow> Some (ev_data event, ev_ts event, ev_lost event)
      | None \<Rightarrow> None)"

text \<open>The locals \<^verbatim>\<open>next\<close>, \<^verbatim>\<open>next_cpu\<close>, \<^verbatim>\<open>next_ts\<close>, \<^verbatim>\<open>next_lost\<close> of \<^verbatim>\<open>__find_next_entry\<close>.\<close>

record next_entry =
  nxt :: "print_event_entry option"
  next_cpu :: int
  next_ts :: u64
  next_lost :: ulong

fun find_next_scan :: "ring_buffer \<Rightarrow> nat list \<Rightarrow> next_entry \<Rightarrow> next_entry" where
  "find_next_scan b [] n = n"
| "find_next_scan b (cpu # cpus) n =
     (if ring_buffer_empty_cpu b cpu then find_next_scan b cpus n
      else (case peek_next_entry b cpu of
              Some (ent, ts, lost_events) \<Rightarrow>
                if nxt n = None \<or> ts < next_ts n
                then find_next_scan b cpus
                       \<lparr>nxt = Some ent, next_cpu = int cpu, next_ts = ts, next_lost = lost_events\<rparr>
                else find_next_scan b cpus n
            | None \<Rightarrow> find_next_scan b cpus n))"

text \<open>
  \<^verbatim>\<open>__find_next_entry\<close>: the result record holds the returned pointer and the
  values stored through \<^verbatim>\<open>ent_cpu\<close>, \<^verbatim>\<open>ent_ts\<close> and \<^verbatim>\<open>missing_events\<close>.
\<close>

definition find_next_entry :: "ring_buffer \<Rightarrow> next_entry" where
  "find_next_entry b =
     find_next_scan b (for_each_possible_cpu b)
       \<lparr>nxt = None, next_cpu = - 1, next_ts = 0, next_lost = 0\<rparr>"

text \<open>
  Two measures of a store: the number of records it holds, and whether each CPU's
  buffer holds its records in non-decreasing time-stamp order.
\<close>

definition rb_events :: "ring_buffer \<Rightarrow> nat" where
  "rb_events b = sum_list (map length b)"

definition rb_ordered :: "ring_buffer \<Rightarrow> bool" where
  "rb_ordered b = list_all (\<lambda>q. sorted (map ev_ts q)) b"


subsection \<open>The output buffer: \<^verbatim>\<open>struct trace_seq\<close>\<close>

text \<open>
  The \<^verbatim>\<open>trace_seq\<close> of the kernels this file builds against (those with
  \<^verbatim>\<open>PDE_DATA\<close> and \<^verbatim>\<open>trace_seq_used\<close>) is a buffer of \<^verbatim>\<open>PAGE_SIZE\<close> bytes with a
  write position \<^verbatim>\<open>seq.len\<close>, a read position \<^verbatim>\<open>seq.readpos\<close> and the flag
  \<^verbatim>\<open>full\<close>. \<^verbatim>\<open>PAGE_SIZE\<close> is a constant of the kernel build and is a parameter
  \<open>P\<close> here. \<open>seq_buffer\<close> holds the bytes written from the start of the array; the
  bytes after them are zero (\<^verbatim>\<open>kzalloc\<close>, \<^verbatim>\<open>memset\<close>).
\<close>

record trace_seq =
  seq_buffer :: string
  seq_len :: nat
  seq_readpos :: nat
  seq_full :: bool

datatype print_line_t =
  TRACE_TYPE_PARTIAL_LINE | TRACE_TYPE_HANDLED | TRACE_TYPE_UNHANDLED | TRACE_TYPE_NO_CONSUME

text \<open>The \<open>P\<close> bytes of the array.\<close>

definition seq_bytes :: "nat \<Rightarrow> trace_seq \<Rightarrow> string" where
  "seq_bytes P s = take P (seq_buffer s @ replicate P (CHR 0x00))"

text \<open>\<^verbatim>\<open>trace_seq_init\<close> resets the positions and the flag and keeps the bytes.\<close>

definition trace_seq_init :: "trace_seq \<Rightarrow> trace_seq" where
  "trace_seq_init s = s\<lparr>seq_len := 0, seq_readpos := 0, seq_full := False\<rparr>"

definition trace_seq_used :: "nat \<Rightarrow> trace_seq \<Rightarrow> nat" where
  "trace_seq_used P s = min (seq_len s) P"

definition trace_seq_has_overflowed :: "nat \<Rightarrow> trace_seq \<Rightarrow> bool" where
  "trace_seq_has_overflowed P s = (seq_full s \<or> P < seq_len s)"

definition trace_handle_return :: "nat \<Rightarrow> trace_seq \<Rightarrow> print_line_t" where
  "trace_handle_return P s =
     (if trace_seq_has_overflowed P s then TRACE_TYPE_PARTIAL_LINE else TRACE_TYPE_HANDLED)"

text \<open>
  \<^verbatim>\<open>trace_seq_printf\<close>, given the text the format expands to: nothing when
  \<^verbatim>\<open>full\<close> is set; the text is appended when it leaves one byte free
  (\<^verbatim>\<open>len + n < size\<close> in \<^verbatim>\<open>seq_buf_vprintf\<close>); otherwise \<^verbatim>\<open>vsnprintf\<close> has
  written what fitted after the write position, the write position is put back and
  \<^verbatim>\<open>full\<close> is set.
\<close>

definition trace_seq_printf :: "nat \<Rightarrow> trace_seq \<Rightarrow> string \<Rightarrow> trace_seq" where
  "trace_seq_printf P s str =
     (if seq_full s then s
      else if seq_len s < P \<and> seq_len s + length str < P
      then s\<lparr>seq_buffer := take (seq_len s) (seq_bytes P s) @ str,
             seq_len := seq_len s + length str\<rparr>
      else if seq_len s < P
      then s\<lparr>seq_buffer := take (seq_len s) (seq_bytes P s) @ take (P - seq_len s - 1) str,
             seq_full := True\<rparr>
      else s\<lparr>seq_full := True\<rparr>)"

text \<open>
  \<^verbatim>\<open>trace_seq_puts\<close>: the text is appended when it fits the bytes left
  (\<^verbatim>\<open>len + n <= size\<close> in \<^verbatim>\<open>seq_buf_putmem\<close>), otherwise \<^verbatim>\<open>full\<close> is set.
\<close>

definition trace_seq_puts :: "nat \<Rightarrow> trace_seq \<Rightarrow> string \<Rightarrow> trace_seq" where
  "trace_seq_puts P s str =
     (if seq_full s then s
      else if P < seq_len s \<or> P - seq_len s < length str then s\<lparr>seq_full := True\<rparr>
      else s\<lparr>seq_buffer := take (seq_len s) (seq_bytes P s) @ str,
             seq_len := seq_len s + length str\<rparr>)"

text \<open>
  \<^verbatim>\<open>copy_to_user(ubuf, from, n)\<close> returns the number of bytes it could not copy;
  \<open>ubuf\<close> is the number of bytes writable at the caller's address.
\<close>

definition copy_to_user :: "nat \<Rightarrow> nat \<Rightarrow> nat" where
  "copy_to_user ubuf n = n - ubuf"

text \<open>
  \<^verbatim>\<open>trace_seq_to_user\<close> (\<^verbatim>\<open>seq_buf_to_user\<close>): the return value, the bytes that reached
  the caller, and the buffer with its read position advanced. The requested length is
  a \<^verbatim>\<open>size_t\<close> that the VFS keeps below \<^verbatim>\<open>INT_MAX\<close>, so its conversion to \<^verbatim>\<open>int\<close> is
  exact.
\<close>

definition trace_seq_to_user :: "nat \<Rightarrow> trace_seq \<Rightarrow> nat \<Rightarrow> nat \<Rightarrow> int \<times> string \<times> trace_seq" where
  "trace_seq_to_user P s ubuf cnt =
     (if cnt = 0 then (0, [], s)
      else if seq_len s \<le> seq_readpos s then (- EBUSY, [], s)
      else
        let len = trace_seq_used P s - seq_readpos s;
            cnt = (if cnt > len then len else cnt);
            ret = copy_to_user ubuf cnt
        in if ret = cnt then (- EFAULT, [], s)
           else
             let cnt = cnt - ret
             in (int cnt, take cnt (drop (seq_readpos s) (seq_bytes P s)),
                 s\<lparr>seq_readpos := seq_readpos s + cnt\<rparr>))"

subsection \<open>Event classes: \<^verbatim>\<open>find_print_event\<close>, \<^verbatim>\<open>print_trace_fmt_line\<close>\<close>

text \<open>
  Modelled from the spec: \<^verbatim>\<open>struct print_event_class\<close> is declared in \<^verbatim>\<open>trace.h\<close>,
  and the classes' \<^verbatim>\<open>format\<close> functions are defined by the producers, neither among
  the sources. \<^verbatim>\<open>trace.c\<close> uses the fields \<^verbatim>\<open>id\<close>, \<^verbatim>\<open>buffer\<close> and \<^verbatim>\<open>format\<close>; a
  formatter is any function from the output buffer and the record to a line result and
  the buffer it leaves. The array \<^verbatim>\<open>__start_print_event_class\<close> ..
  \<^verbatim>\<open>__stop_print_event_class\<close> is a list of classes.
\<close>

record print_event_class =
  class_id :: int
  class_buffer :: "nat option"
  format :: "trace_seq \<Rightarrow> print_event_entry \<Rightarrow> print_line_t \<times> trace_seq"

text \<open>
  The argument of \<^verbatim>\<open>find_print_event\<close> is an \<^verbatim>\<open>int\<close> that its one caller takes from
  the unsigned \<^verbatim>\<open>id\<close> of a record, so it is never negative.
\<close>

definition find_print_event :: "print_event_class list \<Rightarrow> nat \<Rightarrow> print_event_class option" where
  "find_print_event cls ident = (if ident < length cls then Some (cls ! ident) else None)"

text \<open>The decimal digits that \<^verbatim>\<open>%d\<close> prints for a value that is not negative.\<close>

definition digit_char :: "nat \<Rightarrow> char" where
  "digit_char d = ''0123456789'' ! d"

fun dec :: "nat \<Rightarrow> string" where
  "dec n = (if n < 10 then [digit_char n] else dec (n div 10) @ [digit_char (n mod 10)])"

declare dec.simps [simp del]

definition unknown_id_line :: "nat \<Rightarrow> string" where
  "unknown_id_line ident = ''Unknown id '' @ dec ident @ [CHR 0x0A]"

text \<open>
  \<^verbatim>\<open>print_trace_fmt_line\<close>, on the output buffer \<^verbatim>\<open>iter->seq\<close> and the record
  \<^verbatim>\<open>iter->ent\<close>, which its caller has checked not to be \<^verbatim>\<open>NULL\<close>.
\<close>

definition print_trace_fmt_line ::
  "nat \<Rightarrow> print_event_class list \<Rightarrow> trace_seq \<Rightarrow> print_event_entry \<Rightarrow> print_line_t \<times> trace_seq" where
  "print_trace_fmt_line P cls seq entry =
     (let class = find_print_event cls (entry_id entry)
      in if trace_seq_has_overflowed P seq then (TRACE_TYPE_PARTIAL_LINE, seq)
         else (case class of
                 Some c \<Rightarrow> format c seq entry
               | None \<Rightarrow>
                   let seq' = trace_seq_printf P seq (unknown_id_line (entry_id entry))
                   in (trace_handle_return P seq', seq')))"

subsection \<open>The session: \<^verbatim>\<open>struct print_event_iterator\<close>\<close>

text \<open>
  The fields after the mutex and the pointer to the store, which is passed beside the
  iterator.
\<close>

record print_event_iterator =
  iter_seq :: trace_seq
  iter_ent :: "print_event_entry option"
  iter_lost_events :: ulong
  iter_cpu :: int
  iter_ts :: u64

text \<open>
  \<^verbatim>\<open>trace_next_entry_inc\<close> stores the result of \<^verbatim>\<open>__find_next_entry\<close> in the
  iterator; it returns \<^verbatim>\<open>NULL\<close> exactly when \<open>iter_ent\<close> is \<open>None\<close> afterwards.
\<close>

definition trace_next_entry_inc :: "print_event_iterator \<Rightarrow> ring_buffer \<Rightarrow> print_event_iterator" where
  "trace_next_entry_inc it b =
     (let n = find_next_entry b
      in it\<lparr>iter_ent := nxt n, iter_cpu := next_cpu n,
             iter_lost_events := next_lost n, iter_ts := next_ts n\<rparr>)"

text \<open>
  The call \<^verbatim>\<open>ring_buffer_consume(iter->buffer, iter->cpu, &iter->ts, &iter->lost_events)\<close>
  of the read loop.
\<close>

definition consume_entry ::
  "print_event_iterator \<Rightarrow> ring_buffer \<Rightarrow> print_event_iterator \<times> ring_buffer" where
  "consume_entry it b =
     (case ring_buffer_consume b (nat (iter_cpu it)) of
        (Some e, b') \<Rightarrow> (it\<lparr>iter_ts := ev_ts e, iter_lost_events := ev_lost e\<rparr>, b')
      | (None, b') \<Rightarrow> (it, b'))"

text \<open>
  The \<^verbatim>\<open>memset\<close> of the fields from \<^verbatim>\<open>seq\<close> on, followed by \<^verbatim>\<open>trace_seq_init\<close>
  (lines 230 to 232).
\<close>

definition iter_reset :: "print_event_iterator \<Rightarrow> print_event_iterator" where
  "iter_reset it =
     (let zeroed = \<lparr>iter_seq = \<lparr>seq_buffer = [], seq_len = 0, seq_readpos = 0, seq_full = False\<rparr>,
                    iter_ent = None, iter_lost_events = 0, iter_cpu = 0, iter_ts = 0\<rparr>
      in zeroed\<lparr>iter_seq := trace_seq_init (iter_seq zeroed)\<rparr>)"

subsection \<open>The format loop of \<^verbatim>\<open>trace_read_pipe\<close>\<close>

text \<open>
  One pass of the \<^verbatim>\<open>while\<close> loop of lines 235 to 259, from the test of its
  condition: \<open>Break\<close> when the loop is left (its condition is false, or one of the two
  \<^verbatim>\<open>break\<close> statements), \<open>Continue\<close> when its body ran to the end. \<^verbatim>\<open>WARN_ONCE\<close>
  prints and changes nothing.
\<close>

datatype 'a loop_ctl = Break 'a | Continue 'a

definition format_iteration ::
  "nat \<Rightarrow> print_event_class list \<Rightarrow> nat \<Rightarrow> print_event_iterator \<times> ring_buffer \<Rightarrow>
   (print_event_iterator \<times> ring_buffer) loop_ctl" where
  "format_iteration P cls cnt st =
     (let b = snd st;
          it = trace_next_entry_inc (fst st) b
      in case iter_ent it of
           None \<Rightarrow> Break (it, b)
         | Some entry \<Rightarrow>
             let save_len = seq_len (iter_seq it);
                 r = print_trace_fmt_line P cls (iter_seq it) entry;
                 ret = fst r;
                 it = it\<lparr>iter_seq := snd r\<rparr>
             in if ret = TRACE_TYPE_PARTIAL_LINE
                then Break (it\<lparr>iter_seq := (iter_seq it)\<lparr>seq_len := save_len\<rparr>\<rparr>, b)
                else
                  let st' = (if ret \<noteq> TRACE_TYPE_NO_CONSUME then consume_entry it b else (it, b))
                  in if cnt \<le> trace_seq_used P (iter_seq (fst st')) then Break st'
                     else Continue st')"

text \<open>
  The loop. A formatter that answers \<^verbatim>\<open>TRACE_TYPE_NO_CONSUME\<close> and writes nothing
  keeps it running for ever, so the loop takes fuel: \<open>None\<close> when the fuel runs out.
\<close>

fun format_loop ::
  "nat \<Rightarrow> nat \<Rightarrow> print_event_class list \<Rightarrow> nat \<Rightarrow> print_event_iterator \<times> ring_buffer \<Rightarrow>
   (print_event_iterator \<times> ring_buffer) option" where
  "format_loop 0 P cls cnt st = None"
| "format_loop (Suc n) P cls cnt st =
     (case format_iteration P cls cnt st of
        Break st' \<Rightarrow> Some st'
      | Continue st' \<Rightarrow> format_loop n P cls cnt st')"

subsection \<open>Waiting: \<^verbatim>\<open>trace_wait_pipe\<close>\<close>

text \<open>
  What the reader does not control. \<open>waits\<close> lists what the coming calls of
  \<^verbatim>\<open>ring_buffer_wait\<close> will do: the store as the producers have left it when the call
  returns, whether a fatal signal is pending by then, and the value returned. A call
  with no entry left never returns. \<open>fatal_signal\<close> is what
  \<^verbatim>\<open>fatal_signal_pending(current)\<close> answers.
\<close>

record wait_event =
  wake_rb :: ring_buffer
  wake_fatal :: bool
  wake_ret :: int

record world =
  rb :: ring_buffer
  iter :: print_event_iterator
  fatal_signal :: bool
  waits :: "wait_event list"

text \<open>The value of \<^verbatim>\<open>O_NONBLOCK\<close> in the generic \<^verbatim>\<open>fcntl.h\<close> (octal 4000).\<close>

definition O_NONBLOCK :: "32 word" where
  "O_NONBLOCK = 0x800"

definition ring_buffer_waiting :: "wait_event \<Rightarrow> world \<Rightarrow> world" where
  "ring_buffer_waiting ev w =
     w\<lparr>rb := wake_rb ev, fatal_signal := wake_fatal ev, waits := tl (waits w)\<rparr>"

text \<open>\<open>None\<close>: the call blocks for ever.\<close>

function trace_wait_pipe :: "32 word \<Rightarrow> world \<Rightarrow> (int \<times> world) option" where
  "trace_wait_pipe f_flags w =
     (if is_trace_empty (rb w) then
        if f_flags AND O_NONBLOCK \<noteq> 0 then Some (- EAGAIN, w)
        else (case waits w of
                [] \<Rightarrow> None
              | ev # evs \<Rightarrow>
                  let w' = ring_buffer_waiting ev w;
                      ret = wake_ret ev
                  in if ret \<noteq> 0 then Some (ret, w') else trace_wait_pipe f_flags w')
      else Some (1, w))"
  by pat_completeness auto
termination
  by (relation "measure (\<lambda>(f, w). length (waits w))") (auto simp: ring_buffer_waiting_def)

declare trace_wait_pipe.simps [simp del]


subsection \<open>The read call: \<^verbatim>\<open>trace_read_pipe\<close>\<close>

text \<open>
  The code from the label \<^verbatim>\<open>waitagain\<close> on, given the value that \<^verbatim>\<open>sret\<close> holds there.
  The result is the value returned, the bytes copied to the caller, and the state left.
  A first record whose line never fits the empty buffer sends the call round
  \<^verbatim>\<open>waitagain\<close> for ever, so each pass takes fuel.
\<close>

fun trace_read_pipe_waitagain ::
  "nat \<Rightarrow> nat \<Rightarrow> print_event_class list \<Rightarrow> 32 word \<Rightarrow> nat \<Rightarrow> nat \<Rightarrow> int \<Rightarrow> world \<Rightarrow>
   (int \<times> string \<times> world) option" where
  "trace_read_pipe_waitagain 0 P cls f_flags ubuf cnt sret w = None"
| "trace_read_pipe_waitagain (Suc n) P cls f_flags ubuf cnt sret w =
     (if fatal_signal w then Some (sret, [], w)
      else (case trace_wait_pipe f_flags w of
              None \<Rightarrow> None
            | Some (sret, w) \<Rightarrow>
                if sret \<le> 0 then Some (sret, [], w)
                else if is_trace_empty (rb w) then Some (0, [], w)
                else
                  let cnt = (if P \<le> cnt then P - 1 else cnt)
                  in (case format_loop (Suc n) P cls cnt (iter_reset (iter w), rb w) of
                        None \<Rightarrow> None
                      | Some (it, b) \<Rightarrow>
                          let r = trace_seq_to_user P (iter_seq it) ubuf cnt;
                              sret = fst r;
                              seq = snd (snd r);
                              seq = (if trace_seq_used P seq \<le> seq_readpos seq
                                     then trace_seq_init seq else seq);
                              w = w\<lparr>rb := b, iter := it\<lparr>iter_seq := seq\<rparr>\<rparr>
                          in if sret = - EBUSY
                             then trace_read_pipe_waitagain n P cls f_flags ubuf cnt sret w
                             else Some (sret, fst (snd r), w))))"

definition trace_read_pipe ::
  "nat \<Rightarrow> nat \<Rightarrow> print_event_class list \<Rightarrow> 32 word \<Rightarrow> nat \<Rightarrow> nat \<Rightarrow> world \<Rightarrow>
   (int \<times> string \<times> world) option" where
  "trace_read_pipe n P cls f_flags ubuf cnt w =
     (let r = trace_seq_to_user P (iter_seq (iter w)) ubuf cnt;
          sret = fst r
      in if sret \<noteq> - EBUSY
         then Some (sret, fst (snd r), w\<lparr>iter := (iter w)\<lparr>iter_seq := snd (snd r)\<rparr>\<rparr>)
         else trace_read_pipe_waitagain n P cls f_flags ubuf cnt sret
                (w\<lparr>iter := (iter w)\<lparr>iter_seq := trace_seq_init (snd (snd r))\<rparr>\<rparr>))"

subsection \<open>Startup and teardown: \<^verbatim>\<open>print_event_init\<close>, \<^verbatim>\<open>print_event_exit\<close>\<close>

text \<open>
  \<^verbatim>\<open>PRINT_EVENT_ID_MAX\<close> is \<^verbatim>\<open>(1 << (sizeof(id) * 8)) - 1\<close>; the size in bytes of the
  \<^verbatim>\<open>id\<close> field of \<^verbatim>\<open>struct print_event_entry\<close> (\<^verbatim>\<open>trace.h\<close>) is a parameter. The
  shift and the subtraction are those of a 32-bit \<^verbatim>\<open>int\<close>: for a field of one, two or
  three bytes the value is \<open>2 ^ (8 * sizeof_id) - 1\<close>; for a field of four bytes or more
  the shift leaves the width of \<^verbatim>\<open>int\<close>, the constant folds to 0 and the macro to -1.
\<close>

definition PRINT_EVENT_ID_MAX :: "nat \<Rightarrow> int" where
  "PRINT_EVENT_ID_MAX sizeof_id = sint ((push_bit (sizeof_id * 8) 1 :: 32 word) - 1)"

text \<open>
  The calls startup and teardown make, in the order they are made, and what the
  kernel answers to those that can fail.
\<close>

datatype kcall =
  Kallsyms_lookup_name | Ring_buffer_alloc | Proc_mkdir | Proc_create_data
  | Class_assign nat | Pr_info | Remove_proc_subtree | Kfree | Ring_buffer_free

record init_env =
  symbol_found :: bool
  alloc_result :: "nat option"
  mkdir_ok :: bool
  create_ok :: bool

text \<open>
  The statics of the module and what it has published: the array of classes, the
  pointer \<^verbatim>\<open>ring_buffer\<close>, whether \<^verbatim>\<open>ring_buffer_waiting\<close> is resolved, whether the
  directory \<^verbatim>\<open>tracing\<close> and its file \<^verbatim>\<open>trace_pipe\<close> exist.
\<close>

record module_state =
  classes :: "print_event_class list"
  ring_buffer_ptr :: "nat option"
  wait_resolved :: bool
  proc_dir :: bool
  proc_trace_pipe :: bool
  calls :: "kcall list"

definition num_print_event_class :: "module_state \<Rightarrow> int" where
  "num_print_event_class st = int (length (classes st))"

definition kallsyms_lookup_symbols :: "init_env \<Rightarrow> module_state \<Rightarrow> int \<times> module_state" where
  "kallsyms_lookup_symbols env st =
     (let st = st\<lparr>wait_resolved := symbol_found env, calls := calls st @ [Kallsyms_lookup_name]\<rparr>
      in (if wait_resolved st then 0 else - ENODEV, st))"

text \<open>The loop of lines 331 to 337: \<^verbatim>\<open>class->id = id++; class->buffer = ring_buffer\<close>.\<close>

fun assign_classes :: "int \<Rightarrow> nat option \<Rightarrow> print_event_class list \<Rightarrow> print_event_class list" where
  "assign_classes ident rbp [] = []"
| "assign_classes ident rbp (c # cs) =
     c\<lparr>class_id := ident, class_buffer := rbp\<rparr> # assign_classes (ident + 1) rbp cs"

definition print_event_init :: "nat \<Rightarrow> init_env \<Rightarrow> module_state \<Rightarrow> int \<times> module_state" where
  "print_event_init sizeof_id env st =
     (let num_class = num_print_event_class st
      in if num_class = 0 then (0, st)
         else if PRINT_EVENT_ID_MAX sizeof_id \<le> num_class then (- EINVAL, st)
         else
           let r = kallsyms_lookup_symbols env st;
               st = snd r
           in if fst r \<noteq> 0 then (- ENODEV, st)
              else
                let st = st\<lparr>ring_buffer_ptr := alloc_result env,
                            calls := calls st @ [Ring_buffer_alloc]\<rparr>
                in if ring_buffer_ptr st = None then (- ENOMEM, st)
                   else
                     let st = st\<lparr>proc_dir := mkdir_ok env, calls := calls st @ [Proc_mkdir]\<rparr>
                     in if \<not> proc_dir st
                        then (- ENOMEM, st\<lparr>calls := calls st @ [Kfree]\<rparr>)
                        else
                          let st = st\<lparr>proc_trace_pipe := create_ok env,
                                      calls := calls st @ [Proc_create_data]\<rparr>
                          in if \<not> proc_trace_pipe st
                             then (- ENOMEM,
                                   st\<lparr>proc_dir := False, proc_trace_pipe := False,
                                      calls := calls st @ [Remove_proc_subtree, Kfree]\<rparr>)
                             else
                               (0, st\<lparr>classes := assign_classes 0 (ring_buffer_ptr st) (classes st),
                                       calls := calls st
                                         @ map Class_assign [0..<length (classes st)] @ [Pr_info]\<rparr>))"

definition print_event_exit :: "module_state \<Rightarrow> module_state" where
  "print_event_exit st =
     (let num_class = num_print_event_class st
      in if num_class = 0 then st
         else st\<lparr>proc_dir := False, proc_trace_pipe := False,
                 calls := calls st @ [Remove_proc_subtree, Ring_buffer_free, Pr_info]\<rparr>)"


subsection \<open>Predicates of the proofs\<close>

text \<open>The locals of \<^verbatim>\<open>__find_next_entry\<close> before its loop.\<close>

definition scan_init :: next_entry where
  "scan_init = \<lparr>nxt = None, next_cpu = - 1, next_ts = 0, next_lost = 0\<rparr>"

text \<open>
  What the scan of the CPUs below \<open>m\<close> has found: nothing when they are all empty,
  otherwise the oldest event of the first CPU whose oldest event has the least time
  stamp.
\<close>

definition picks :: "ring_buffer \<Rightarrow> nat \<Rightarrow> next_entry \<Rightarrow> bool" where
  "picks b m r \<longleftrightarrow>
     (if \<forall>j<m. b ! j = [] then r = scan_init
      else \<exists>c<m. b ! c \<noteq> [] \<and> r = \<lparr>nxt = Some (ev_data (hd (b ! c))), next_cpu = int c,
               next_ts = ev_ts (hd (b ! c)), next_lost = ev_lost (hd (b ! c))\<rparr> \<and>
             (\<forall>j<m. b ! j \<noteq> [] \<longrightarrow> ev_ts (hd (b ! c)) \<le> ev_ts (hd (b ! j))) \<and>
             (\<forall>j<c. b ! j \<noteq> [] \<longrightarrow> ev_ts (hd (b ! c)) < ev_ts (hd (b ! j))))"

text \<open>No event of the store is older than \<open>t\<close>.\<close>

definition all_ge :: "u64 \<Rightarrow> ring_buffer \<Rightarrow> bool" where
  "all_ge t b \<longleftrightarrow> (\<forall>c<length b. \<forall>e\<in>set (b ! c). t \<le> ev_ts e)"

text \<open>The store of the spec's example: two CPUs, time stamps 5 and 7 on CPU 0, 3 on CPU 1.\<close>

definition ex_event :: "nat \<Rightarrow> nat \<Rightarrow> ring_buffer_event" where
  "ex_event t i = \<lparr>ev_ts = of_nat t, ev_lost = 0, ev_data = \<lparr>entry_id = i, payload = []\<rparr>\<rparr>"

definition ex_rb :: ring_buffer where
  "ex_rb = [[ex_event 5 1, ex_event 7 1], [ex_event 3 2]]"

text \<open>Whether the first \<open>a\<close> of a list of calls is followed by a \<open>b\<close>.\<close>

fun precedes :: "'a \<Rightarrow> 'a \<Rightarrow> 'a list \<Rightarrow> bool" where
  "precedes a b [] = False"
| "precedes a b (x # xs) = (if x = a then b \<in> set xs else precedes a b xs)"

text \<open>
  Examples. A class whose formatter prints one line with \<^verbatim>\<open>trace_seq_printf\<close> and
  returns \<^verbatim>\<open>trace_handle_return\<close>, on pages of 4096 bytes; a kernel in which every
  call of startup succeeds, and one in which \<^verbatim>\<open>proc_create_data\<close> fails; a module with
  \<open>K\<close> classes before startup.
\<close>

definition ex_fmt :: "trace_seq \<Rightarrow> print_event_entry \<Rightarrow> print_line_t \<times> trace_seq" where
  "ex_fmt s e = (let s' = trace_seq_printf 4096 s (''event '' @ dec (entry_id e) @ [CHR 0x0A])
                 in (trace_handle_return 4096 s', s'))"

definition ex_class :: print_event_class where
  "ex_class = \<lparr>class_id = 0, class_buffer = None, format = ex_fmt\<rparr>"

definition ex_env :: init_env where
  "ex_env = \<lparr>symbol_found = True, alloc_result = Some 1, mkdir_ok = True, create_ok = True\<rparr>"

definition ex_env_nocreate :: init_env where
  "ex_env_nocreate = \<lparr>symbol_found = True, alloc_result = Some 1, mkdir_ok = True, create_ok = False\<rparr>"

definition ex_module :: "nat \<Rightarrow> module_state" where
  "ex_module K = \<lparr>classes = replicate K ex_class, ring_buffer_ptr = None, wait_resolved = False,
      proc_dir = False, proc_trace_pipe = False, calls = []\<rparr>"

text \<open>
  A session whose output buffer holds the text \<open>txt\<close>, none of it read yet, and a world
  with that session, the store \<open>b\<close>, the signal state \<open>sig\<close> and no wake-up to come.
\<close>

definition ex_iter :: "string \<Rightarrow> print_event_iterator" where
  "ex_iter txt = \<lparr>iter_seq = \<lparr>seq_buffer = txt, seq_len = length txt, seq_readpos = 0, seq_full = False\<rparr>,
     iter_ent = None, iter_lost_events = 0, iter_cpu = 0, iter_ts = 0\<rparr>"

definition ex_world :: "string \<Rightarrow> ring_buffer \<Rightarrow> bool \<Rightarrow> world" where
  "ex_world txt b sig = \<lparr>rb = b, iter = ex_iter txt, fatal_signal = sig, waits = []\<rparr>"

text \<open>A store of two CPUs with nothing in it.\<close>

definition ex_empty_rb :: ring_buffer where
  "ex_empty_rb = [[], []]"

text \<open>
  The formatted text of an output buffer: its bytes up to the write position. This is
  what the delivery step copies from.
\<close>

definition seq_text :: "nat \<Rightarrow> trace_seq \<Rightarrow> string" where
  "seq_text P s = take (trace_seq_used P s) (seq_bytes P s)"

text \<open>
  Two disciplines of a formatter, both kept by \<^verbatim>\<open>trace_seq_printf\<close>: it writes only
  at and after the write position it finds, and it leaves the last byte of the buffer
  free unless it signals a partial line.
\<close>

definition writes_after_len ::
  "nat \<Rightarrow> (trace_seq \<Rightarrow> print_event_entry \<Rightarrow> print_line_t \<times> trace_seq) \<Rightarrow> bool" where
  "writes_after_len P f \<longleftrightarrow>
     (\<forall>s e. take (seq_len s) (seq_bytes P (snd (f s e))) = take (seq_len s) (seq_bytes P s))"

definition leaves_byte_free ::
  "nat \<Rightarrow> (trace_seq \<Rightarrow> print_event_entry \<Rightarrow> print_line_t \<times> trace_seq) \<Rightarrow> bool" where
  "leaves_byte_free P f \<longleftrightarrow>
     (\<forall>s e. seq_len s < P \<longrightarrow> fst (f s e) = TRACE_TYPE_PARTIAL_LINE \<or> seq_len (snd (f s e)) < P)"

text \<open>The output buffer as a read call leaves it: reset, or with text still to be read.\<close>

definition reset_or_leftover :: "nat \<Rightarrow> trace_seq \<Rightarrow> bool" where
  "reset_or_leftover P s \<longleftrightarrow>
     seq_len s = 0 \<and> seq_readpos s = 0 \<or> seq_readpos s < trace_seq_used P s"

text \<open>
  A class whose formatter writes a line of 4096 bytes with \<^verbatim>\<open>trace_seq_puts\<close> and
  returns \<^verbatim>\<open>trace_handle_return\<close>, and the session after that line was formatted into
  an empty buffer.
\<close>

definition big_fmt :: "trace_seq \<Rightarrow> print_event_entry \<Rightarrow> print_line_t \<times> trace_seq" where
  "big_fmt s e = (let s' = trace_seq_puts 4096 s (replicate 4096 (CHR ''x''))
                  in (trace_handle_return 4096 s', s'))"

definition big_class :: print_event_class where
  "big_class = \<lparr>class_id = 0, class_buffer = None, format = big_fmt\<rparr>"

definition big_iter :: print_event_iterator where
  "big_iter = \<lparr>iter_seq = \<lparr>seq_buffer = replicate 4096 (CHR ''x''), seq_len = 4096,
                             seq_readpos = 0, seq_full = False\<rparr>,
     iter_ent = Some \<lparr>entry_id = 0, payload = []\<rparr>, iter_lost_events = 0, iter_cpu = 0, iter_ts = 5\<rparr>"

text \<open>
  The session after the fallback line of a record with id 300 was formatted into an
  empty buffer, the same once the loop has found the store empty, the session after
  the loop has formatted the fallback lines of the three records of the example store,
  and a session whose buffer holds 4090 bytes.
\<close>

definition ex_line_iter :: print_event_iterator where
  "ex_line_iter = \<lparr>iter_seq = \<lparr>seq_buffer = ''Unknown id 300'' @ [CHR 0x0A], seq_len = 15,
                             seq_readpos = 0, seq_full = False\<rparr>,
     iter_ent = Some \<lparr>entry_id = 300, payload = []\<rparr>, iter_lost_events = 0, iter_cpu = 0, iter_ts = 5\<rparr>"

definition ex_done_iter :: print_event_iterator where
  "ex_done_iter = ex_line_iter\<lparr>iter_ent := None, iter_cpu := - 1, iter_lost_events := 0, iter_ts := 0\<rparr>"

definition ex_drained_iter :: print_event_iterator where
  "ex_drained_iter =
     \<lparr>iter_seq = \<lparr>seq_buffer = ''Unknown id 2\<newline>Unknown id 1\<newline>Unknown id 1\<newline>'',
                   seq_len = 39, seq_readpos = 0, seq_full = False\<rparr>,
      iter_ent = None, iter_lost_events = 0, iter_cpu = - 1, iter_ts = 0\<rparr>"

definition ex_nearly_full :: print_event_iterator where
  "ex_nearly_full = ex_iter (replicate 4090 (CHR ''x''))"

text \<open>
  The sequence of merge steps, used to state in which order records leave the store.
  \<open>merge_consume\<close> is the store after \<^verbatim>\<open>ring_buffer_consume\<close> (line 246) has taken
  the record of the CPU that \<^verbatim>\<open>__find_next_entry\<close> selected (line 235); \<open>rb_after k\<close>
  is the store after \<open>k\<close> such steps, and \<open>drain k\<close> lists the time stamps of the records
  that they take. These are not functions of the source: the theorems of claim C1 prove
  that every store left by \<open>format_loop\<close> and by \<open>trace_read_pipe\<close> is an \<open>rb_after\<close>
  of the store they started from.
\<close>

definition merge_consume :: "ring_buffer \<Rightarrow> ring_buffer" where
  "merge_consume b = snd (ring_buffer_consume b (nat (next_cpu (find_next_entry b))))"

fun rb_after :: "nat \<Rightarrow> ring_buffer \<Rightarrow> ring_buffer" where
  "rb_after 0 b = b"
| "rb_after (Suc k) b = rb_after k (merge_consume b)"

fun drain :: "nat \<Rightarrow> ring_buffer \<Rightarrow> u64 list" where
  "drain 0 b = []"
| "drain (Suc k) b =
     (let n = find_next_entry b in
      case nxt n of
        None \<Rightarrow> []
      | Some ent \<Rightarrow> next_ts n # drain k (snd (ring_buffer_consume b (nat (next_cpu n)))))"

text \<open>A store whose CPU 0 holds a record with time stamp 9 before one with time stamp 2.\<close>

definition unordered_rb :: ring_buffer where
  "unordered_rb = [[ex_event 9 9, ex_event 2 2], [ex_event 4 4]]"

text \<open>The number that a string of decimal digits denotes.\<close>

definition digit_val :: "char \<Rightarrow> nat" where
  "digit_val c = of_char c - 48"

definition undec :: "string \<Rightarrow> nat" where
  "undec s = foldl (\<lambda>a c. 10 * a + digit_val c) 0 s"

section \<open>The merge step\<close>

lemma is_trace_empty_scan_iff:
  "is_trace_empty_scan b cpus \<longleftrightarrow> (\<forall>c\<in>set cpus. ring_buffer_empty_cpu b c)"
  by (induction cpus) auto

lemma is_trace_empty_iff: "is_trace_empty b \<longleftrightarrow> (\<forall>c<length b. b ! c = [])"
  by (auto simp: is_trace_empty_def is_trace_empty_scan_iff for_each_possible_cpu_def ring_buffer_empty_cpu_def)

lemma find_next_scan_append:
  "find_next_scan b (xs @ ys) n = find_next_scan b ys (find_next_scan b xs n)"
  by (induction xs arbitrary: n) (auto split: option.splits)

lemma find_next_scan_step:
  assumes "m < length b" "picks b m r"
  shows "picks b (Suc m) (find_next_scan b [m] r)"
proof (cases "b ! m")
  case Nil
  with assms show ?thesis
    by (auto simp: picks_def ring_buffer_empty_cpu_def less_Suc_eq split: if_splits)
next
  case (Cons e es)
  show ?thesis
  proof (cases "\<forall>j<m. b ! j = []")
    case True
    with assms Cons show ?thesis
      by (auto simp: picks_def ring_buffer_empty_cpu_def peek_next_entry_def ring_buffer_peek_def
          scan_init_def less_Suc_eq intro!: exI[of _ m])
  next
    case False
    with assms obtain c where c: "c < m" "b ! c \<noteq> []"
      "r = \<lparr>nxt = Some (ev_data (hd (b ! c))), next_cpu = int c,
               next_ts = ev_ts (hd (b ! c)), next_lost = ev_lost (hd (b ! c))\<rparr>"
      "\<forall>j<m. b ! j \<noteq> [] \<longrightarrow> ev_ts (hd (b ! c)) \<le> ev_ts (hd (b ! j))"
      "\<forall>j<c. b ! j \<noteq> [] \<longrightarrow> ev_ts (hd (b ! c)) < ev_ts (hd (b ! j))"
      by (auto simp: picks_def split: if_splits)
    show ?thesis
    proof (cases "ev_ts e < ev_ts (hd (b ! c))")
      case True
      have "find_next_scan b [m] r = \<lparr>nxt = Some (ev_data e), next_cpu = int m,
               next_ts = ev_ts e, next_lost = ev_lost e\<rparr>"
        using True Cons assms(1) c(3)
        by (simp add: ring_buffer_empty_cpu_def peek_next_entry_def ring_buffer_peek_def)
      moreover have "\<forall>j<Suc m. b ! j \<noteq> [] \<longrightarrow> ev_ts e \<le> ev_ts (hd (b ! j))"
        using True c(4) Cons by (auto simp: less_Suc_eq)
      moreover have "\<forall>j<m. b ! j \<noteq> [] \<longrightarrow> ev_ts e < ev_ts (hd (b ! j))"
        using True c(4) by (meson less_le_trans)
      ultimately show ?thesis using Cons
        by (auto simp: picks_def intro!: exI[of _ m])
    next
      case False
      have "find_next_scan b [m] r = r"
        using False Cons assms(1) c(3)
        by (simp add: ring_buffer_empty_cpu_def peek_next_entry_def ring_buffer_peek_def)
      moreover have "\<forall>j<Suc m. b ! j \<noteq> [] \<longrightarrow> ev_ts (hd (b ! c)) \<le> ev_ts (hd (b ! j))"
        using False c(4) Cons by (auto simp: less_Suc_eq)
      ultimately show ?thesis using c
        by (auto simp: picks_def intro!: exI[of _ c])
    qed
  qed
qed

lemma find_next_scan_picks:
  "m \<le> length b \<Longrightarrow> picks b m (find_next_scan b [0..<m] scan_init)"
proof (induction m)
  case 0
  show ?case by (simp add: picks_def)
next
  case (Suc m)
  then show ?case
    using find_next_scan_step[of m b "find_next_scan b [0..<m] scan_init"]
    by (simp add: find_next_scan_append)
qed

lemma find_next_entry_picks: "picks b (length b) (find_next_entry b)"
  using find_next_scan_picks[of "length b" b]
  by (simp add: find_next_entry_def for_each_possible_cpu_def scan_init_def)

lemma consume_pick:
  assumes "c < length b" "b ! c \<noteq> []"
  shows "snd (ring_buffer_consume b c) = b[c := tl (b ! c)]"
  using assms by (cases "b ! c") (auto simp: ring_buffer_consume_def)

lemma rb_events_update:
  assumes "c < length b" "b ! c \<noteq> []"
  shows "Suc (rb_events (b[c := tl (b ! c)])) = rb_events b"
proof -
  have "b = take c b @ (b ! c) # drop (Suc c) b"
    using assms(1) by (simp add: id_take_nth_drop)
  moreover have "b[c := tl (b ! c)] = take c b @ tl (b ! c) # drop (Suc c) b"
    using assms(1) by (simp add: upd_conv_take_nth_drop)
  ultimately have "rb_events b = sum_list (map length (take c b)) + length (b ! c) + sum_list (map length (drop (Suc c) b))"
    and "rb_events (b[c := tl (b ! c)]) = sum_list (map length (take c b)) + length (tl (b ! c)) + sum_list (map length (drop (Suc c) b))"
    unfolding rb_events_def by (metis map_append list.simps(9) sum_list.append sum_list.Cons add.assoc)+
  with assms(2) show ?thesis by (cases "b ! c") auto
qed

lemma rb_ordered_iff: "rb_ordered b \<longleftrightarrow> (\<forall>c<length b. sorted (map ev_ts (b ! c)))"
  by (auto simp: rb_ordered_def list_all_length)

lemma rb_ordered_update:
  assumes "rb_ordered b" "c < length b"
  shows "rb_ordered (b[c := tl (b ! c)])"
  unfolding rb_ordered_iff
proof (intro allI impI)
  fix j assume "j < length (b[c := tl (b ! c)])"
  then have j: "j < length b" by simp
  show "sorted (map ev_ts (b[c := tl (b ! c)] ! j))"
  proof (cases "j = c")
    case True
    have "sorted (map ev_ts (b ! c))" using assms by (simp add: rb_ordered_iff)
    then have "sorted (map ev_ts (tl (b ! c)))" by (cases "b ! c") auto
    with True j show ?thesis by simp
  next
    case False
    with j assms show ?thesis by (simp add: rb_ordered_iff)
  qed
qed

lemma picks_all_ge:
  assumes "rb_ordered b" "picks b (length b) r" "nxt r \<noteq> None"
  shows "all_ge (next_ts r) b"
proof -
  from assms(2,3) obtain c where c: "c < length b" "b ! c \<noteq> []"
      "next_ts r = ev_ts (hd (b ! c))"
      "\<forall>j<length b. b ! j \<noteq> [] \<longrightarrow> ev_ts (hd (b ! c)) \<le> ev_ts (hd (b ! j))"
    by (auto simp: picks_def scan_init_def split: if_splits)
  show ?thesis unfolding all_ge_def
  proof (intro allI impI ballI)
    fix j e assume j: "j < length b" and e: "e \<in> set (b ! j)"
    then have ne: "b ! j \<noteq> []" by auto
    have "sorted (map ev_ts (b ! j))" using assms(1) j by (simp add: rb_ordered_iff)
    with ne e have "ev_ts (hd (b ! j)) \<le> ev_ts e"
      by (cases "b ! j") auto
    with c j ne show "next_ts r \<le> ev_ts e" by (metis order_trans)
  qed
qed

lemma all_ge_update:
  assumes "all_ge t b"
  shows "all_ge t (b[c := tl (b ! c)])"
  unfolding all_ge_def
proof (intro allI impI ballI)
  fix j e assume j: "j < length (b[c := tl (b ! c)])" and e: "e \<in> set (b[c := tl (b ! c)] ! j)"
  have "e \<in> set (b ! j)"
  proof (cases "j = c")
    case True
    with j e have "e \<in> set (tl (b ! c))" by simp
    then have "e \<in> set (b ! c)" by (cases "b ! c") auto
    with True show ?thesis by simp
  next
    case False
    with j e show ?thesis by simp
  qed
  with assms j show "t \<le> ev_ts e" by (auto simp: all_ge_def)
qed

lemma drain_all_ge: "all_ge t b \<Longrightarrow> \<forall>x\<in>set (drain k b). t \<le> x"
proof (induction k arbitrary: b)
  case 0
  show ?case by simp
next
  case (Suc k)
  let ?r = "find_next_entry b"
  show ?case
  proof (cases "nxt ?r")
    case None
    then show ?thesis by simp
  next
    case (Some ent)
    with find_next_entry_picks[of b] obtain c where c: "c < length b" "b ! c \<noteq> []"
      "next_cpu ?r = int c" "next_ts ?r = ev_ts (hd (b ! c))"
      by (auto simp: picks_def scan_init_def split: if_splits)
    have "t \<le> next_ts ?r" using Suc.prems c by (auto simp: all_ge_def)
    moreover have "\<forall>x\<in>set (drain k (b[c := tl (b ! c)])). t \<le> x"
      using Suc.IH[OF all_ge_update[OF Suc.prems]] .
    ultimately show ?thesis using Some c by (simp add: consume_pick)
  qed
qed

lemma drain_sorted: "rb_ordered b \<Longrightarrow> sorted (drain k b)"
proof (induction k arbitrary: b)
  case 0
  show ?case by simp
next
  case (Suc k)
  let ?r = "find_next_entry b"
  show ?case
  proof (cases "nxt ?r")
    case None
    then show ?thesis by simp
  next
    case (Some ent)
    with find_next_entry_picks[of b] obtain c where c: "c < length b" "b ! c \<noteq> []"
      "next_cpu ?r = int c"
      by (auto simp: picks_def scan_init_def split: if_splits)
    have "all_ge (next_ts ?r) b"
      using picks_all_ge[OF Suc.prems find_next_entry_picks] Some by simp
    then have "\<forall>x\<in>set (drain k (b[c := tl (b ! c)])). next_ts ?r \<le> x"
      by (intro drain_all_ge all_ge_update)
    moreover have "sorted (drain k (b[c := tl (b ! c)]))"
      by (intro Suc.IH rb_ordered_update Suc.prems c)
    ultimately show ?thesis using Some c by (simp add: consume_pick)
  qed
qed

lemma peek_Some_iff:
  "ring_buffer_peek b c = Some e \<longleftrightarrow> c < length b \<and> b ! c \<noteq> [] \<and> e = hd (b ! c)"
  by (cases "b ! c") (auto simp: ring_buffer_peek_def)

lemma picked:
  assumes "nxt (find_next_entry b) \<noteq> None"
  obtains c where "c < length b" "b ! c \<noteq> []"
    "find_next_entry b = \<lparr>nxt = Some (ev_data (hd (b ! c))), next_cpu = int c,
               next_ts = ev_ts (hd (b ! c)), next_lost = ev_lost (hd (b ! c))\<rparr>"
    "merge_consume b = b[c := tl (b ! c)]"
proof -
  from assms find_next_entry_picks[of b] obtain c where c: "c < length b" "b ! c \<noteq> []"
    "find_next_entry b = \<lparr>nxt = Some (ev_data (hd (b ! c))), next_cpu = int c,
               next_ts = ev_ts (hd (b ! c)), next_lost = ev_lost (hd (b ! c))\<rparr>"
    by (auto simp: picks_def scan_init_def split: if_splits)
  then have "merge_consume b = b[c := tl (b ! c)]"
    by (simp add: merge_consume_def consume_pick)
  with c show ?thesis by (rule that)
qed

lemma none_iff_empty: "nxt (find_next_entry b) = None \<longleftrightarrow> is_trace_empty b"
  using find_next_entry_picks[of b]
  by (auto simp: picks_def scan_init_def is_trace_empty_iff split: if_splits)

lemma merge_consume_empty: "is_trace_empty b \<Longrightarrow> merge_consume b = b"
proof -
  assume e: "is_trace_empty b"
  then have "find_next_entry b = scan_init"
    using find_next_entry_picks[of b] by (simp add: picks_def is_trace_empty_iff)
  then have "merge_consume b = snd (ring_buffer_consume b 0)"
    by (simp add: merge_consume_def scan_init_def)
  also have "\<dots> = b" using e
    by (cases b) (auto simp: ring_buffer_consume_def is_trace_empty_iff split: list.splits)
  finally show ?thesis .
qed

lemma drain_Suc:
  "drain (Suc k) b = (if is_trace_empty b then [] else next_ts (find_next_entry b) # drain k (merge_consume b))"
  by (auto simp: Let_def merge_consume_def none_iff_empty[symmetric] split: option.splits)

lemma rb_after_add: "rb_after (k + j) b = rb_after j (rb_after k b)"
  by (induction k arbitrary: b) auto

lemma rb_after_empty: "is_trace_empty b \<Longrightarrow> rb_after k b = b"
  by (induction k) (auto simp: merge_consume_empty)

lemma drain_empty: "is_trace_empty b \<Longrightarrow> drain k b = []"
  by (cases k) (simp_all add: drain_Suc del: drain.simps(2))

lemma drain_add: "drain (k + j) b = drain k b @ drain j (rb_after k b)"
proof (induction k arbitrary: b)
  case 0
  show ?case by simp
next
  case (Suc k)
  show ?case
  proof (cases "is_trace_empty b")
    case True
    then show ?thesis by (simp add: drain_empty rb_after_empty merge_consume_empty del: drain.simps)
  next
    case False
    have "drain (Suc k + j) b = next_ts (find_next_entry b) # drain (k + j) (merge_consume b)"
      using False by (simp add: drain_Suc del: drain.simps)
    then show ?thesis using False Suc.IH[of "merge_consume b"]
      by (simp add: drain_Suc del: drain.simps)
  qed
qed

lemma rb_events_merge_consume: "rb_events (merge_consume b) = rb_events b - 1"
proof (cases "is_trace_empty b")
  case True
  then have "\<forall>q\<in>set b. length q = 0" by (auto simp: is_trace_empty_iff in_set_conv_nth)
  then have "rb_events b = 0" by (simp add: rb_events_def)
  with True show ?thesis by (simp add: merge_consume_empty)
next
  case False
  then have "nxt (find_next_entry b) \<noteq> None" by (simp add: none_iff_empty)
  then obtain c where "c < length b" "b ! c \<noteq> []" "merge_consume b = b[c := tl (b ! c)]"
    by (rule picked)
  then show ?thesis using rb_events_update[of c b] by simp
qed

lemma rb_events_after: "rb_events (rb_after k b) = rb_events b - k"
  by (induction k arbitrary: b) (auto simp: rb_events_merge_consume)

lemma empty_iff_no_events: "is_trace_empty b \<longleftrightarrow> rb_events b = 0"
  by (auto simp: is_trace_empty_iff rb_events_def all_set_conv_all_nth)

lemma drain_length_min: "length (drain k b) = min k (rb_events b)"
proof (induction k arbitrary: b)
  case 0
  show ?case by simp
next
  case (Suc k)
  show ?case
  proof (cases "is_trace_empty b")
    case True
    then show ?thesis by (simp add: drain_empty empty_iff_no_events del: drain.simps)
  next
    case False
    then have "0 < rb_events b" by (simp add: empty_iff_no_events)
    then show ?thesis using False Suc.IH[of "merge_consume b"]
      by (simp add: drain_Suc rb_events_merge_consume del: drain.simps)
  qed
qed

lemma rb_ordered_merge_consume: "rb_ordered b \<Longrightarrow> rb_ordered (merge_consume b)"
proof (cases "is_trace_empty b")
  case True
  assume "rb_ordered b"
  with True show ?thesis by (simp add: merge_consume_empty)
next
  case False
  assume o: "rb_ordered b"
  from False have "nxt (find_next_entry b) \<noteq> None" by (simp add: none_iff_empty)
  then obtain c where "c < length b" "merge_consume b = b[c := tl (b ! c)]"
    by (rule picked)
  with o show ?thesis by (simp add: rb_ordered_update)
qed

lemma rb_ordered_after: "rb_ordered b \<Longrightarrow> rb_ordered (rb_after k b)"
  by (induction k arbitrary: b) (auto simp: rb_ordered_merge_consume)

lemma all_ge_merge_consume: "all_ge t b \<Longrightarrow> all_ge t (merge_consume b)"
proof (cases "is_trace_empty b")
  case True
  assume "all_ge t b"
  with True show ?thesis by (simp add: merge_consume_empty)
next
  case False
  assume a: "all_ge t b"
  from False have "nxt (find_next_entry b) \<noteq> None" by (simp add: none_iff_empty)
  then obtain c where "merge_consume b = b[c := tl (b ! c)]"
    by (rule picked)
  with a show ?thesis by (simp add: all_ge_update)
qed

lemma all_ge_after: "all_ge t b \<Longrightarrow> all_ge t (rb_after k b)"
  by (induction k arbitrary: b) (auto simp: all_ge_merge_consume)

lemma drain_le_rest:
  "rb_ordered b \<Longrightarrow> \<forall>t\<in>set (drain k b). all_ge t (rb_after k b)"
proof (induction k arbitrary: b)
  case 0
  show ?case by simp
next
  case (Suc k)
  show ?case
  proof (cases "is_trace_empty b")
    case True
    then show ?thesis by (simp add: drain_empty del: drain.simps)
  next
    case False
    then have ne: "nxt (find_next_entry b) \<noteq> None" by (simp add: none_iff_empty)
    have "all_ge (next_ts (find_next_entry b)) b"
      using picks_all_ge[OF Suc.prems find_next_entry_picks ne] .
    then have "all_ge (next_ts (find_next_entry b)) (rb_after k (merge_consume b))"
      by (intro all_ge_after all_ge_merge_consume)
    moreover have "\<forall>t\<in>set (drain k (merge_consume b)). all_ge t (rb_after k (merge_consume b))"
      by (intro Suc.IH rb_ordered_merge_consume Suc.prems)
    ultimately show ?thesis using False by (simp add: drain_Suc del: drain.simps)
  qed
qed

text \<open>On the example store the merge takes the record of CPU 1 with time stamp 3.\<close>

lemma ex_rb_find: "find_next_entry ex_rb =
    \<lparr>nxt = Some \<lparr>entry_id = 2, payload = []\<rparr>, next_cpu = 1, next_ts = 3, next_lost = 0\<rparr>"
  by (simp add: find_next_entry_def for_each_possible_cpu_def ex_rb_def ex_event_def
      ring_buffer_empty_cpu_def peek_next_entry_def ring_buffer_peek_def upt_rec)

lemma ex_rb_drain: "drain 3 ex_rb = [3, 5, 7]"
  by (simp add: numeral_3_eq_3 find_next_entry_def for_each_possible_cpu_def ex_rb_def ex_event_def
      ring_buffer_empty_cpu_def peek_next_entry_def ring_buffer_peek_def upt_rec
      ring_buffer_consume_def)

lemma ex_empty: "is_trace_empty ex_empty_rb"
  by (simp add: is_trace_empty_def for_each_possible_cpu_def ex_empty_rb_def
      ring_buffer_empty_cpu_def upt_rec)

section \<open>Startup\<close>

lemma length_assign_classes [simp]: "length (assign_classes i r cs) = length cs"
  by (induction cs arbitrary: i) auto

lemma nth_assign_classes:
  "k < length cs \<Longrightarrow> assign_classes i r cs ! k = (cs ! k)\<lparr>class_id := i + int k, class_buffer := r\<rparr>"
proof (induction cs arbitrary: i k)
  case Nil
  then show ?case by simp
next
  case (Cons c cs)
  then show ?case by (cases k) (auto simp: algebra_simps)
qed

lemma ID_MAX_small:
  "PRINT_EVENT_ID_MAX 1 = 255" "PRINT_EVENT_ID_MAX 2 = 65535" "PRINT_EVENT_ID_MAX 3 = 16777215"
  "PRINT_EVENT_ID_MAX (Suc 0) = 255"
  by (simp_all add: PRINT_EVENT_ID_MAX_def)

lemma ID_MAX_overflow: "4 \<le> sz \<Longrightarrow> PRINT_EVENT_ID_MAX sz = - 1"
proof -
  assume "4 \<le> sz"
  then have "(2 ^ (sz * 8) :: 32 word) = 0"
    by simp
  then show ?thesis unfolding PRINT_EVENT_ID_MAX_def push_bit_of_1 by (simp only:) simp
qed

lemmas init_defs = print_event_init_def num_print_event_class_def kallsyms_lookup_symbols_def Let_def
  EINVAL_def ENODEV_def ENOMEM_def

lemma init_success_cases:
  assumes "fst (print_event_init sz env st) = 0"
  shows "(classes st = [] \<and> snd (print_event_init sz env st) = st) \<or>
         (classes st \<noteq> [] \<and> classes (snd (print_event_init sz env st)) = assign_classes 0 (alloc_result env) (classes st))"
  using assms by (auto simp: init_defs split: if_splits)

text \<open>
  Claim C9. After a successful startup the array has its classes in the order they
  had: the \<open>i\<close>-th class carries the id \<open>i\<close> and its own formatter,
  \<^verbatim>\<open>find_print_event(i)\<close> returns that \<open>i\<close>-th class for every \<open>i\<close> below the number
  \<open>K\<close> of classes, and \<^verbatim>\<open>find_print_event\<close> returns \<^verbatim>\<open>NULL\<close> for every id from \<open>K\<close> on.
\<close>

theorem registration_lookup_roundtrip:
  assumes "fst (print_event_init sz env st) = 0"
  shows "length (classes (snd (print_event_init sz env st))) = length (classes st) \<and>
    (\<forall>i<length (classes st).
       class_id (classes (snd (print_event_init sz env st)) ! i) = int i \<and>
       format (classes (snd (print_event_init sz env st)) ! i) = format (classes st ! i) \<and>
       find_print_event (classes (snd (print_event_init sz env st))) i =
         Some (classes (snd (print_event_init sz env st)) ! i)) \<and>
    (\<forall>ident\<ge>length (classes st).
       find_print_event (classes (snd (print_event_init sz env st))) ident = None)"
proof -
  let ?cs = "classes (snd (print_event_init sz env st))"
  from init_success_cases[OF assms]
  have len: "length ?cs = length (classes st)" by auto
  have ids: "class_id (?cs ! i) = int i \<and> format (?cs ! i) = format (classes st ! i)"
    if "i < length (classes st)" for i
    using init_success_cases[OF assms] that by (auto simp: nth_assign_classes)
  show ?thesis using len ids by (simp add: find_print_event_def)
qed

lemma ex_init: "print_event_init 1 ex_env (ex_module 2) =
   (0, \<lparr>classes = [ex_class\<lparr>class_id := 0, class_buffer := Some 1\<rparr>,
                    ex_class\<lparr>class_id := 1, class_buffer := Some 1\<rparr>],
        ring_buffer_ptr = Some 1, wait_resolved = True, proc_dir = True, proc_trace_pipe = True,
        calls = [Kallsyms_lookup_name, Ring_buffer_alloc, Proc_mkdir, Proc_create_data,
                 Class_assign 0, Class_assign 1, Pr_info]\<rparr>)"
  by (simp add: init_defs ex_env_def ex_module_def ID_MAX_small numeral_2_eq_2 upt_rec)

text \<open>A startup with two classes: the second has id 1 and is found under it; id 2 finds none.\<close>

theorem registration_lookup_roundtrip_witness:
  "fst (print_event_init 1 ex_env (ex_module 2)) = 0 \<and>
   class_id (classes (snd (print_event_init 1 ex_env (ex_module 2))) ! 1) = 1 \<and>
   find_print_event (classes (snd (print_event_init 1 ex_env (ex_module 2)))) 1 =
     Some (classes (snd (print_event_init 1 ex_env (ex_module 2))) ! 1) \<and>
   find_print_event (classes (snd (print_event_init 1 ex_env (ex_module 2)))) 2 = None"
proof -
  have ok: "fst (print_event_init 1 ex_env (ex_module 2)) = 0" unfolding ex_init by simp
  have len: "length (classes (ex_module 2)) = 2" by (simp add: ex_module_def)
  from registration_lookup_roundtrip[OF ok] len
  have "class_id (classes (snd (print_event_init 1 ex_env (ex_module 2))) ! 1) = 1 \<and>
   find_print_event (classes (snd (print_event_init 1 ex_env (ex_module 2)))) 1 =
     Some (classes (snd (print_event_init 1 ex_env (ex_module 2))) ! 1) \<and>
   find_print_event (classes (snd (print_event_init 1 ex_env (ex_module 2)))) 2 = None"
    by simp
  with ok show ?thesis by simp
qed

text \<open>
  Claim C4, as amended. Startup returns \<^verbatim>\<open>-EINVAL\<close> exactly when there is a class and
  the number of classes is at least \<^verbatim>\<open>PRINT_EVENT_ID_MAX\<close>, and then it has changed
  nothing. \<^verbatim>\<open>PRINT_EVENT_ID_MAX\<close> is 255 for an id field of one byte and 65535 for one
  of two bytes, the largest value of the field: with one byte startup refuses exactly
  255 classes or more (254 are accepted, 255 are not), with two bytes exactly 65535 or
  more. For an id field of four bytes or more the macro is -1 and startup refuses every
  number of classes but zero.
\<close>

theorem too_many_classes_iff:
  "(fst (print_event_init sz env st) = - EINVAL \<longleftrightarrow>
      classes st \<noteq> [] \<and> PRINT_EVENT_ID_MAX sz \<le> num_print_event_class st) \<and>
   (fst (print_event_init sz env st) = - EINVAL \<longrightarrow> snd (print_event_init sz env st) = st) \<and>
   PRINT_EVENT_ID_MAX 1 = 255 \<and> PRINT_EVENT_ID_MAX 2 = 65535 \<and>
   (fst (print_event_init 1 env st) = - EINVAL \<longleftrightarrow> 255 \<le> length (classes st)) \<and>
   (fst (print_event_init 2 env st) = - EINVAL \<longleftrightarrow> 65535 \<le> length (classes st)) \<and>
   (4 \<le> sz \<longrightarrow> PRINT_EVENT_ID_MAX sz = - 1 \<and>
      (fst (print_event_init sz env st) = - EINVAL \<longleftrightarrow> classes st \<noteq> []))"
proof -
  have a: "fst (print_event_init z env st) = - EINVAL \<longleftrightarrow>
            classes st \<noteq> [] \<and> PRINT_EVENT_ID_MAX z \<le> num_print_event_class st" for z
    by (auto simp: init_defs split: if_splits)
  have b: "fst (print_event_init sz env st) = - EINVAL \<longrightarrow> snd (print_event_init sz env st) = st"
    by (auto simp: init_defs split: if_splits)
  have c1: "fst (print_event_init 1 env st) = - EINVAL \<longleftrightarrow> 255 \<le> length (classes st)"
    unfolding a[of 1] ID_MAX_small by (auto simp: num_print_event_class_def)
  have c2: "fst (print_event_init 2 env st) = - EINVAL \<longleftrightarrow> 65535 \<le> length (classes st)"
    unfolding a[of 2] ID_MAX_small by (auto simp: num_print_event_class_def)
  have d: "PRINT_EVENT_ID_MAX sz = - 1 \<and>
      (fst (print_event_init sz env st) = - EINVAL \<longleftrightarrow> classes st \<noteq> [])" if "4 \<le> sz"
    unfolding a[of sz] ID_MAX_overflow[OF that] by (simp add: num_print_event_class_def)
  show ?thesis using a[of sz] b c1 c2 d ID_MAX_small(1,2) by blast
qed

text \<open>
  With an id of one byte, 254 classes start and 255 do not; with an id of four bytes
  one class does not.
\<close>

theorem too_many_classes_iff_witness:
  "fst (print_event_init 1 ex_env (ex_module 254)) = 0 \<and>
   classes (ex_module 255) \<noteq> [] \<and>
   PRINT_EVENT_ID_MAX 1 \<le> num_print_event_class (ex_module 255) \<and>
   fst (print_event_init 1 ex_env (ex_module 255)) = - EINVAL \<and>
   snd (print_event_init 1 ex_env (ex_module 255)) = ex_module 255 \<and>
   (4::nat) \<le> 4 \<and> classes (ex_module 1) \<noteq> [] \<and>
   fst (print_event_init 4 ex_env (ex_module 1)) = - EINVAL"
proof -
  have l: "classes (ex_module 255) \<noteq> []" "classes (ex_module 1) \<noteq> []"
    "PRINT_EVENT_ID_MAX 1 \<le> num_print_event_class (ex_module 255)"
    by (simp_all add: ex_module_def ID_MAX_small num_print_event_class_def)
  note inst = too_many_classes_iff[of 1 ex_env "ex_module 255"]
  from inst[THEN conjunct1] l
  have e: "fst (print_event_init 1 ex_env (ex_module 255)) = - EINVAL" by blast
  from inst[THEN conjunct2, THEN conjunct1, THEN mp, OF e]
  have s: "snd (print_event_init 1 ex_env (ex_module 255)) = ex_module 255" .
  have four: "(4::nat) \<le> 4" by simp
  note inst4 = too_many_classes_iff[of 4 ex_env "ex_module 1"]
  from inst4[THEN conjunct2, THEN conjunct2, THEN conjunct2, THEN conjunct2, THEN conjunct2,
      THEN conjunct2, THEN mp, OF four] l(2)
  have f: "fst (print_event_init 4 ex_env (ex_module 1)) = - EINVAL" by blast
  have "fst (print_event_init 1 ex_env (ex_module 254)) = 0"
    by (simp add: init_defs ex_env_def ex_module_def ID_MAX_small)
  with e s f l show ?thesis by simp
qed

text \<open>
  The claim as stated fails: 255 classes do not exceed the range of an 8-bit id
  (\<open>255 \<le> 2 ^ 8 - 1\<close>), and startup refuses them.
\<close>

theorem class_count_255_rejected:
  "length (classes (ex_module 255)) = 255 \<and> (255::int) \<le> 2 ^ 8 - 1 \<and>
   fst (print_event_init 1 ex_env (ex_module 255)) = - EINVAL"
  by (simp add: init_defs ex_env_def ex_module_def ID_MAX_small)

text \<open>
  Claim C7, as amended. On a module that has published nothing, a startup that succeeds
  with at least one class has resolved the wait primitive, allocated the store,
  created the directory and the file, and only then given the classes their ids, in
  that order. A startup that fails returns a negative value and leaves nothing
  published and no class touched: no id was assigned, and where the file's creation
  was attempted the directory has been removed after it.
\<close>

theorem startup_order_and_rollback:
  assumes "\<not> proc_dir st" "\<not> proc_trace_pipe st"
  shows
   "(fst (print_event_init sz env st) = 0 \<and> classes st \<noteq> [] \<longrightarrow>
       drop (length (calls st)) (calls (snd (print_event_init sz env st))) =
         [Kallsyms_lookup_name, Ring_buffer_alloc, Proc_mkdir, Proc_create_data]
           @ map Class_assign [0..<length (classes st)] @ [Pr_info] \<and>
       proc_dir (snd (print_event_init sz env st)) \<and>
       proc_trace_pipe (snd (print_event_init sz env st))) \<and>
    (fst (print_event_init sz env st) \<noteq> 0 \<longrightarrow>
       fst (print_event_init sz env st) < 0 \<and>
       \<not> proc_dir (snd (print_event_init sz env st)) \<and>
       \<not> proc_trace_pipe (snd (print_event_init sz env st)) \<and>
       classes (snd (print_event_init sz env st)) = classes st \<and>
       (\<forall>i. Class_assign i \<notin> set (drop (length (calls st)) (calls (snd (print_event_init sz env st)))))) \<and>
    (fst (print_event_init sz env st) \<noteq> 0 \<and>
     Proc_create_data \<in> set (drop (length (calls st)) (calls (snd (print_event_init sz env st)))) \<longrightarrow>
       precedes Proc_create_data Remove_proc_subtree
         (drop (length (calls st)) (calls (snd (print_event_init sz env st)))))"
proof (intro conjI impI)
  assume "fst (print_event_init sz env st) = 0 \<and> classes st \<noteq> []"
  then show "drop (length (calls st)) (calls (snd (print_event_init sz env st))) =
         [Kallsyms_lookup_name, Ring_buffer_alloc, Proc_mkdir, Proc_create_data]
           @ map Class_assign [0..<length (classes st)] @ [Pr_info]"
    and "proc_dir (snd (print_event_init sz env st))"
    and "proc_trace_pipe (snd (print_event_init sz env st))"
    by (auto simp: init_defs split: if_splits)
next
  assume f: "fst (print_event_init sz env st) \<noteq> 0"
  then show "fst (print_event_init sz env st) < 0"
    by (auto simp: init_defs split: if_splits)
  from f assms show "\<not> proc_dir (snd (print_event_init sz env st))"
    and "\<not> proc_trace_pipe (snd (print_event_init sz env st))"
    and "classes (snd (print_event_init sz env st)) = classes st"
    by (auto simp: init_defs split: if_splits)
  from f show "\<forall>i. Class_assign i \<notin> set (drop (length (calls st)) (calls (snd (print_event_init sz env st))))"
    by (auto simp: init_defs split: if_splits)
next
  assume "fst (print_event_init sz env st) \<noteq> 0 \<and>
     Proc_create_data \<in> set (drop (length (calls st)) (calls (snd (print_event_init sz env st))))"
  then show "precedes Proc_create_data Remove_proc_subtree
         (drop (length (calls st)) (calls (snd (print_event_init sz env st))))"
    by (auto simp: init_defs split: if_splits)
qed

lemma ex_init_nocreate:
  "print_event_init 1 ex_env_nocreate (ex_module 1) =
    (- ENOMEM, \<lparr>classes = [ex_class], ring_buffer_ptr = Some 1, wait_resolved = True,
        proc_dir = False, proc_trace_pipe = False,
        calls = [Kallsyms_lookup_name, Ring_buffer_alloc, Proc_mkdir, Proc_create_data,
                 Remove_proc_subtree, Kfree]\<rparr>)"
  by (simp add: init_defs ex_env_nocreate_def ex_module_def ID_MAX_small)

lemma ex_init1:
  "print_event_init 1 ex_env (ex_module 1) =
    (0, \<lparr>classes = [ex_class\<lparr>class_id := 0, class_buffer := Some 1\<rparr>],
        ring_buffer_ptr = Some 1, wait_resolved = True, proc_dir = True, proc_trace_pipe = True,
        calls = [Kallsyms_lookup_name, Ring_buffer_alloc, Proc_mkdir, Proc_create_data,
                 Class_assign 0, Pr_info]\<rparr>)"
  by (simp add: init_defs ex_env_def ex_module_def ID_MAX_small)

text \<open>A startup with one class that succeeds, and one whose \<^verbatim>\<open>proc_create_data\<close> fails.\<close>

theorem startup_order_and_rollback_witness:
  "\<not> proc_dir (ex_module 1) \<and> \<not> proc_trace_pipe (ex_module 1) \<and>
   fst (print_event_init 1 ex_env_nocreate (ex_module 1)) \<noteq> 0 \<and>
   Proc_create_data \<in> set (drop (length (calls (ex_module 1)))
      (calls (snd (print_event_init 1 ex_env_nocreate (ex_module 1))))) \<and>
   \<not> proc_dir (snd (print_event_init 1 ex_env_nocreate (ex_module 1))) \<and>
   classes (snd (print_event_init 1 ex_env_nocreate (ex_module 1))) = classes (ex_module 1) \<and>
   fst (print_event_init 1 ex_env (ex_module 1)) = 0 \<and> classes (ex_module 1) \<noteq> [] \<and>
   proc_trace_pipe (snd (print_event_init 1 ex_env (ex_module 1)))"
proof -
  have a: "\<not> proc_dir (ex_module 1)" "\<not> proc_trace_pipe (ex_module 1)"
    "classes (ex_module 1) \<noteq> []"
    by (simp_all add: ex_module_def)
  have b: "fst (print_event_init 1 ex_env_nocreate (ex_module 1)) \<noteq> 0"
    unfolding ex_init_nocreate by (simp add: ENOMEM_def)
  have c: "Proc_create_data \<in> set (drop (length (calls (ex_module 1)))
      (calls (snd (print_event_init 1 ex_env_nocreate (ex_module 1)))))"
    unfolding ex_init_nocreate by (simp add: ex_module_def)
  have d: "fst (print_event_init 1 ex_env (ex_module 1)) = 0"
    unfolding ex_init1 by simp
  from startup_order_and_rollback[OF a(1,2), of 1 ex_env_nocreate] b
  have e: "\<not> proc_dir (snd (print_event_init 1 ex_env_nocreate (ex_module 1))) \<and>
   classes (snd (print_event_init 1 ex_env_nocreate (ex_module 1))) = classes (ex_module 1)"
    by blast
  from startup_order_and_rollback[OF a(1,2), of 1 ex_env] d a(3)
  have f: "proc_trace_pipe (snd (print_event_init 1 ex_env (ex_module 1)))"
    by blast
  from a b c d e f show ?thesis by blast
qed

text \<open>
  The claim as stated fails: the classes get their ids after the store is allocated
  and after the interface is published, not before.
\<close>

theorem registration_follows_publication:
  "precedes Ring_buffer_alloc (Class_assign 0) (calls (snd (print_event_init 1 ex_env (ex_module 1)))) \<and>
   precedes Proc_create_data (Class_assign 0) (calls (snd (print_event_init 1 ex_env (ex_module 1)))) \<and>
   \<not> precedes (Class_assign 0) Ring_buffer_alloc (calls (snd (print_event_init 1 ex_env (ex_module 1))))"
  unfolding ex_init1 by simp

section \<open>The read call\<close>

lemma length_seq_bytes [simp]: "length (seq_bytes P s) = P"
  by (simp add: seq_bytes_def)

lemma to_user_cases:
  "trace_seq_to_user P s ubuf cnt =
     (if cnt = 0 then (0, [], s)
      else if seq_len s \<le> seq_readpos s then (- EBUSY, [], s)
      else if min (min cnt (trace_seq_used P s - seq_readpos s)) ubuf = 0 then (- EFAULT, [], s)
      else (int (min (min cnt (trace_seq_used P s - seq_readpos s)) ubuf),
            take (min (min cnt (trace_seq_used P s - seq_readpos s)) ubuf)
              (drop (seq_readpos s) (seq_bytes P s)),
            s\<lparr>seq_readpos := seq_readpos s + min (min cnt (trace_seq_used P s - seq_readpos s)) ubuf\<rparr>))"
  by (auto simp: trace_seq_to_user_def copy_to_user_def Let_def min_def)

lemma to_user_EBUSY_iff:
  "fst (trace_seq_to_user P s ubuf cnt) = - EBUSY \<longleftrightarrow> cnt \<noteq> 0 \<and> seq_len s \<le> seq_readpos s"
  by (auto simp: to_user_cases EBUSY_def EFAULT_def)

lemma to_user_EBUSY_same:
  "fst (trace_seq_to_user P s ubuf cnt) = - EBUSY \<Longrightarrow> trace_seq_to_user P s ubuf cnt = (- EBUSY, [], s)"
  by (simp add: to_user_EBUSY_iff) (simp add: to_user_cases)

lemma to_user_length:
  "length (fst (snd (trace_seq_to_user P s ubuf cnt))) \<le> min cnt (trace_seq_used P s - seq_readpos s)"
  by (auto simp: to_user_cases trace_seq_used_def)

lemma to_user_ret:
  "fst (trace_seq_to_user P s ubuf cnt) = int (length (fst (snd (trace_seq_to_user P s ubuf cnt)))) \<or>
   fst (trace_seq_to_user P s ubuf cnt) = - EBUSY \<and> fst (snd (trace_seq_to_user P s ubuf cnt)) = [] \<or>
   fst (trace_seq_to_user P s ubuf cnt) = - EFAULT \<and> fst (snd (trace_seq_to_user P s ubuf cnt)) = []"
  by (auto simp: to_user_cases trace_seq_used_def)

text \<open>
  Claim C8. When the output buffer holds text not yet read (the write position is ahead
  of the read position), the read call returns at once, whatever fuel it has: it
  copies the text from the read position on, as much of it as the requested length and
  the caller's buffer allow, and advances the read position by that much. Nothing else
  of the state changes: the store, the wake-ups to come and the record, CPU, time
  stamp and lost-event fields of the session are as before.
\<close>

theorem leftover_flush_leaves_store:
  assumes "seq_readpos (iter_seq (iter w)) < seq_len (iter_seq (iter w))"
  shows "\<exists>sret out.
     trace_read_pipe n P cls f_flags ubuf cnt w =
       Some (sret, out,
             w\<lparr>iter := (iter w)\<lparr>iter_seq := (iter_seq (iter w))
                  \<lparr>seq_readpos := seq_readpos (iter_seq (iter w)) + length out\<rparr>\<rparr>\<rparr>) \<and>
     out = take (length out) (drop (seq_readpos (iter_seq (iter w))) (seq_bytes P (iter_seq (iter w)))) \<and>
     length out =
       min (min cnt (trace_seq_used P (iter_seq (iter w)) - seq_readpos (iter_seq (iter w)))) ubuf \<and>
     sret = (if cnt = 0 then 0 else if out = [] then - EFAULT else int (length out))"
proof -
  let ?s = "iter_seq (iter w)"
  define k where "k = min (min cnt (trace_seq_used P ?s - seq_readpos ?s)) ubuf"
  define out where "out = take k (drop (seq_readpos ?s) (seq_bytes P ?s))"
  have "k \<le> P - seq_readpos ?s" by (auto simp: k_def trace_seq_used_def)
  then have l: "length out = k" by (simp add: out_def)
  have r: "trace_seq_to_user P ?s ubuf cnt =
     (if cnt = 0 then (0, [], ?s) else if k = 0 then (- EFAULT, [], ?s)
      else (int k, out, ?s\<lparr>seq_readpos := seq_readpos ?s + k\<rparr>))"
    using assms unfolding to_user_cases k_def out_def by simp
  have z: "k = 0" if "cnt = 0" using that by (simp add: k_def)
  have "trace_read_pipe n P cls f_flags ubuf cnt w =
       Some (if cnt = 0 then 0 else if out = [] then - EFAULT else int (length out), out,
             w\<lparr>iter := (iter w)\<lparr>iter_seq := ?s\<lparr>seq_readpos := seq_readpos ?s + length out\<rparr>\<rparr>\<rparr>)"
  proof (cases "k = 0")
    case True
    then have "out = []" using l by simp
    with True r show ?thesis
      by (simp add: trace_read_pipe_def Let_def EBUSY_def EFAULT_def)
  next
    case False
    then have "out \<noteq> []" "cnt \<noteq> 0" using l z by auto
    with False r l show ?thesis
      by (simp add: trace_read_pipe_def Let_def EBUSY_def)
  qed
  moreover have "out = take (length out) (drop (seq_readpos ?s) (seq_bytes P ?s))"
    using l by (simp add: out_def)
  ultimately show ?thesis using l unfolding k_def by blast
qed

text \<open>A read of two bytes from a session that holds three, over the example store.\<close>

theorem leftover_flush_leaves_store_witness:
  "seq_readpos (iter_seq (iter (ex_world ''abc'' ex_rb False)))
     < seq_len (iter_seq (iter (ex_world ''abc'' ex_rb False))) \<and>
   (\<exists>sret out w'. trace_read_pipe 0 4096 [] 0 2 2 (ex_world ''abc'' ex_rb False) = Some (sret, out, w') \<and>
      rb w' = ex_rb \<and> length out = 2 \<and> sret = 2)"
proof -
  have h: "seq_readpos (iter_seq (iter (ex_world ''abc'' ex_rb False)))
     < seq_len (iter_seq (iter (ex_world ''abc'' ex_rb False)))"
    by (simp add: ex_world_def ex_iter_def)
  have u: "trace_seq_used 4096 (iter_seq (iter (ex_world ''abc'' ex_rb False))) = 3"
    "seq_readpos (iter_seq (iter (ex_world ''abc'' ex_rb False))) = 0"
    by (simp_all add: ex_world_def ex_iter_def trace_seq_used_def)
  from leftover_flush_leaves_store[OF h, of 0 4096 "[]" 0 2 2]
  obtain sret out where
    r: "trace_read_pipe 0 4096 [] 0 2 2 (ex_world ''abc'' ex_rb False) =
       Some (sret, out,
             (ex_world ''abc'' ex_rb False)\<lparr>iter := (iter (ex_world ''abc'' ex_rb False))\<lparr>iter_seq := (iter_seq (iter (ex_world ''abc'' ex_rb False)))
                  \<lparr>seq_readpos := seq_readpos (iter_seq (iter (ex_world ''abc'' ex_rb False))) + length out\<rparr>\<rparr>\<rparr>)"
    and l: "length out = 2" and s: "sret = (if (2::nat) = 0 then 0 else if out = [] then - EFAULT else int (length out))"
    unfolding u by auto
  from l have "out \<noteq> []" by auto
  with s l have "sret = 2" by simp
  with r l h show ?thesis by (auto simp: ex_world_def)
qed

lemma ex_leftover_read:
  "trace_read_pipe 0 4096 [] 0 2 2 (ex_world ''abc'' ex_rb False) =
     Some (2, ''ab'', (ex_world ''abc'' ex_rb False)
        \<lparr>iter := (ex_iter ''abc'')\<lparr>iter_seq := (iter_seq (ex_iter ''abc''))\<lparr>seq_readpos := 2\<rparr>\<rparr>\<rparr>)"
  by (simp add: trace_read_pipe_def to_user_cases ex_world_def ex_iter_def trace_seq_used_def
      seq_bytes_def EBUSY_def Let_def)

lemma wait_nonblock_empty:
  "is_trace_empty (rb w) \<Longrightarrow> f_flags AND O_NONBLOCK \<noteq> 0 \<Longrightarrow>
   trace_wait_pipe f_flags w = Some (- EAGAIN, w)"
  by (subst trace_wait_pipe.simps) simp

lemma wait_interrupted:
  "is_trace_empty (rb w) \<Longrightarrow> f_flags AND O_NONBLOCK = 0 \<Longrightarrow> waits w = ev # evs \<Longrightarrow>
   wake_ret ev \<noteq> 0 \<Longrightarrow>
   trace_wait_pipe f_flags w = Some (wake_ret ev, ring_buffer_waiting ev w)"
  by (subst trace_wait_pipe.simps) (simp add: Let_def)

lemma read_pipe_no_leftover:
  assumes "cnt \<noteq> 0" "seq_len (iter_seq (iter w)) \<le> seq_readpos (iter_seq (iter w))"
  shows "trace_read_pipe n P cls f_flags ubuf cnt w =
     trace_read_pipe_waitagain n P cls f_flags ubuf cnt (- EBUSY)
       (w\<lparr>iter := (iter w)\<lparr>iter_seq := trace_seq_init (iter_seq (iter w))\<rparr>\<rparr>)"
  using assms by (simp add: trace_read_pipe_def to_user_cases Let_def)

lemma read_pipe_leftover:
  assumes "cnt = 0 \<or> seq_readpos (iter_seq (iter w)) < seq_len (iter_seq (iter w))"
  shows "\<exists>sret out s'. trace_read_pipe n P cls f_flags ubuf cnt w =
     Some (sret, out, w\<lparr>iter := (iter w)\<lparr>iter_seq := s'\<rparr>\<rparr>) \<and> sret \<noteq> - EBUSY"
proof -
  have "fst (trace_seq_to_user P (iter_seq (iter w)) ubuf cnt) \<noteq> - EBUSY"
    using assms by (auto simp: to_user_EBUSY_iff)
  then show ?thesis by (auto simp: trace_read_pipe_def Let_def)
qed

text \<open>
  Claim C3, as amended. A read call on an empty store with \<^verbatim>\<open>O_NONBLOCK\<close> set returns,
  whatever else holds, with the store and the wake-ups to come as they were: it
  consumes no record and does not enter the wait primitive. When moreover the session
  has no text left to deliver, the requested length is not zero and no fatal signal is
  pending, what it returns is \<^verbatim>\<open>-EAGAIN\<close>, with no byte copied.
\<close>

theorem nonblocking_empty_read:
  assumes "is_trace_empty (rb w)" "f_flags AND O_NONBLOCK \<noteq> 0"
  shows "(\<exists>sret out w'. trace_read_pipe (Suc n) P cls f_flags ubuf cnt w = Some (sret, out, w') \<and>
            rb w' = rb w \<and> waits w' = waits w) \<and>
         (cnt \<noteq> 0 \<and> seq_len (iter_seq (iter w)) \<le> seq_readpos (iter_seq (iter w)) \<and>
          \<not> fatal_signal w \<longrightarrow>
            trace_read_pipe (Suc n) P cls f_flags ubuf cnt w =
              Some (- EAGAIN, [], w\<lparr>iter := (iter w)\<lparr>iter_seq := trace_seq_init (iter_seq (iter w))\<rparr>\<rparr>))"
proof -
  let ?w1 = "w\<lparr>iter := (iter w)\<lparr>iter_seq := trace_seq_init (iter_seq (iter w))\<rparr>\<rparr>"
  have e: "is_trace_empty (rb ?w1)" using assms(1) by simp
  have wa: "trace_read_pipe_waitagain (Suc n) P cls f_flags ubuf cnt (- EBUSY) ?w1 =
      (if fatal_signal w then Some (- EBUSY, [], ?w1) else Some (- EAGAIN, [], ?w1))"
    using wait_nonblock_empty[OF e assms(2)] by (simp add: EAGAIN_def)
  show ?thesis
  proof (cases "cnt = 0 \<or> seq_readpos (iter_seq (iter w)) < seq_len (iter_seq (iter w))")
    case True
    from read_pipe_leftover[OF True, of "Suc n" P cls f_flags ubuf]
    obtain sret out s' where "trace_read_pipe (Suc n) P cls f_flags ubuf cnt w =
     Some (sret, out, w\<lparr>iter := (iter w)\<lparr>iter_seq := s'\<rparr>\<rparr>)" by blast
    then have "\<exists>sret out w'. trace_read_pipe (Suc n) P cls f_flags ubuf cnt w = Some (sret, out, w') \<and>
            rb w' = rb w \<and> waits w' = waits w" by simp
    with True show ?thesis by auto
  next
    case False
    then have nl: "cnt \<noteq> 0" "seq_len (iter_seq (iter w)) \<le> seq_readpos (iter_seq (iter w))" by auto
    show ?thesis unfolding read_pipe_no_leftover[OF nl] wa by simp
  qed
qed

lemma nonblock_set: "O_NONBLOCK AND O_NONBLOCK \<noteq> 0" "O_NONBLOCK \<noteq> 0"
  by (simp_all add: O_NONBLOCK_def)

text \<open>A non-blocking read of ten bytes from a fresh session on an empty store.\<close>

theorem nonblocking_empty_read_witness:
  "is_trace_empty (rb (ex_world [] ex_empty_rb False)) \<and> O_NONBLOCK AND O_NONBLOCK \<noteq> 0 \<and>
   (10::nat) \<noteq> 0 \<and>
   seq_len (iter_seq (iter (ex_world [] ex_empty_rb False)))
     \<le> seq_readpos (iter_seq (iter (ex_world [] ex_empty_rb False))) \<and>
   \<not> fatal_signal (ex_world [] ex_empty_rb False) \<and>
   trace_read_pipe 1 4096 [] O_NONBLOCK 10 10 (ex_world [] ex_empty_rb False) =
     Some (- EAGAIN, [], ex_world [] ex_empty_rb False)"
proof -
  have a: "is_trace_empty (rb (ex_world [] ex_empty_rb False))"
    by (simp add: ex_world_def ex_empty)
  have b: "seq_len (iter_seq (iter (ex_world [] ex_empty_rb False)))
     \<le> seq_readpos (iter_seq (iter (ex_world [] ex_empty_rb False)))"
    "\<not> fatal_signal (ex_world [] ex_empty_rb False)"
    by (simp_all add: ex_world_def ex_iter_def)
  have c: "(ex_world [] ex_empty_rb False)\<lparr>iter := (iter (ex_world [] ex_empty_rb False))
      \<lparr>iter_seq := trace_seq_init (iter_seq (iter (ex_world [] ex_empty_rb False)))\<rparr>\<rparr>
      = ex_world [] ex_empty_rb False"
    by (simp add: ex_world_def ex_iter_def trace_seq_init_def)
  from nonblocking_empty_read[OF a nonblock_set(1), of 0 4096 "[]" 10 10] b
  have "trace_read_pipe 1 4096 [] O_NONBLOCK 10 10 (ex_world [] ex_empty_rb False) =
     Some (- EAGAIN, [], ex_world [] ex_empty_rb False)"
    unfolding c by simp
  with a b nonblock_set show ?thesis by simp
qed

text \<open>
  The claim as stated fails: with three bytes of formatted text left in the session, a
  non-blocking read of the empty store returns those three bytes, not \<^verbatim>\<open>-EAGAIN\<close>.
\<close>

theorem nonblocking_read_returns_leftover:
  "is_trace_empty (rb (ex_world ''abc'' ex_empty_rb False)) \<and> O_NONBLOCK AND O_NONBLOCK \<noteq> 0 \<and>
   trace_read_pipe 1 4096 [] O_NONBLOCK 10 10 (ex_world ''abc'' ex_empty_rb False) =
     Some (3, ''abc'', (ex_world ''abc'' ex_empty_rb False)
        \<lparr>iter := (ex_iter ''abc'')\<lparr>iter_seq := (iter_seq (ex_iter ''abc''))\<lparr>seq_readpos := 3\<rparr>\<rparr>\<rparr>) \<and>
   (3::int) \<noteq> - EAGAIN"
proof -
  have "trace_read_pipe 1 4096 [] O_NONBLOCK 10 10 (ex_world ''abc'' ex_empty_rb False) =
     Some (3, ''abc'', (ex_world ''abc'' ex_empty_rb False)
        \<lparr>iter := (ex_iter ''abc'')\<lparr>iter_seq := (iter_seq (ex_iter ''abc''))\<lparr>seq_readpos := 3\<rparr>\<rparr>\<rparr>)"
    by (simp add: trace_read_pipe_def to_user_cases ex_world_def ex_iter_def trace_seq_used_def
      seq_bytes_def EBUSY_def Let_def)
  then show ?thesis
    by (simp add: ex_world_def ex_empty nonblock_set EAGAIN_def)
qed

lemma wait_pipe_result:
  "trace_wait_pipe f_flags w = Some (r, w') \<Longrightarrow>
     iter w' = iter w \<and> set (waits w') \<subseteq> set (waits w) \<and>
     (r = - EAGAIN \<or> r = 1 \<or> (\<exists>ev\<in>set (waits w). r = wake_ret ev))"
proof (induction f_flags w rule: trace_wait_pipe.induct)
  case (1 f_flags w)
  show ?case
  proof (cases "is_trace_empty (rb w) \<and> f_flags AND O_NONBLOCK = 0")
    case False
    with "1.prems" show ?thesis
      by (subst (asm) trace_wait_pipe.simps) (auto split: if_splits)
  next
    case True
    show ?thesis
    proof (cases "waits w")
      case Nil
      with True "1.prems" show ?thesis
        by (subst (asm) trace_wait_pipe.simps) simp
    next
      case (Cons ev evs)
      show ?thesis
      proof (cases "wake_ret ev = 0")
        case False
        with True Cons "1.prems" show ?thesis
          by (subst (asm) trace_wait_pipe.simps) (auto simp: Let_def ring_buffer_waiting_def)
      next
        case z: True
        from True Cons z "1.prems"
        have "trace_wait_pipe f_flags (ring_buffer_waiting ev w) = Some (r, w')"
          by (subst (asm) trace_wait_pipe.simps) (simp add: Let_def)
        from "1.IH"[OF _ _ Cons refl refl _ this] True z
        show ?thesis using Cons by (auto simp: ring_buffer_waiting_def)
      qed
    qed
  qed
qed

lemma waitagain_EBUSY_fatal:
  "trace_read_pipe_waitagain n P cls f_flags ubuf cnt (- EBUSY) w = Some (- EBUSY, out, w') \<Longrightarrow>
   \<forall>ev\<in>set (waits w). wake_ret ev \<noteq> - EBUSY \<Longrightarrow> fatal_signal w'"
proof (induction n arbitrary: w cnt)
  case 0
  then show ?case by simp
next
  case (Suc n)
  show ?case
  proof (cases "fatal_signal w")
    case True
    with Suc.prems show ?thesis by simp
  next
    case nf: False
    show ?thesis
    proof (cases "trace_wait_pipe f_flags w")
      case None
      with nf Suc.prems show ?thesis by simp
    next
      case (Some a)
      obtain r w1 where a: "a = (r, w1)" by (cases a)
      note wr = wait_pipe_result[OF Some[unfolded a]]
      from wr Suc.prems(2) have rne: "r \<noteq> - EBUSY"
        by (auto simp: EAGAIN_def EBUSY_def)
      show ?thesis
      proof (cases "r \<le> 0 \<or> is_trace_empty (rb w1)")
        case True
        with nf Some a Suc.prems(1) rne show ?thesis
          by (auto simp: EBUSY_def split: if_splits)
      next
        case False
        let ?cnt = "if P \<le> cnt then P - 1 else cnt"
        show ?thesis
        proof (cases "format_loop (Suc n) P cls ?cnt (iter_reset (iter w1), rb w1)")
          case None
          with nf Some a False Suc.prems(1) show ?thesis by (simp add: Let_def)
        next
          case fl: (Some st)
          obtain it b where st: "st = (it, b)" by (cases st)
          let ?r = "trace_seq_to_user P (iter_seq it) ubuf ?cnt"
          let ?seq = "if trace_seq_used P (snd (snd ?r)) \<le> seq_readpos (snd (snd ?r))
                      then trace_seq_init (snd (snd ?r)) else snd (snd ?r)"
          let ?w2 = "w1\<lparr>rb := b, iter := it\<lparr>iter_seq := ?seq\<rparr>\<rparr>"
          show ?thesis
          proof (cases "fst ?r = - EBUSY")
            case True
            with nf Some a False fl st Suc.prems(1)
            have "trace_read_pipe_waitagain n P cls f_flags ubuf ?cnt (- EBUSY) ?w2 = Some (- EBUSY, out, w')"
              by (simp add: Let_def)
            moreover have "\<forall>ev\<in>set (waits ?w2). wake_ret ev \<noteq> - EBUSY"
              using wr Suc.prems(2) by auto
            ultimately show ?thesis by (rule Suc.IH)
          next
            case ne: False
            with nf Some a False fl st Suc.prems(1) show ?thesis
              by (simp add: Let_def)
          qed
        qed
      qed
    qed
  qed
qed

lemma read_pipe_EBUSY_fatal:
  assumes "trace_read_pipe n P cls f_flags ubuf cnt w = Some (- EBUSY, out, w')"
    and "\<forall>ev\<in>set (waits w). wake_ret ev \<noteq> - EBUSY"
  shows "fatal_signal w'"
proof (cases "cnt = 0 \<or> seq_readpos (iter_seq (iter w)) < seq_len (iter_seq (iter w))")
  case True
  from read_pipe_leftover[OF True, of n P cls f_flags ubuf] assms(1) show ?thesis by auto
next
  case False
  then have nl: "cnt \<noteq> 0" "seq_len (iter_seq (iter w)) \<le> seq_readpos (iter_seq (iter w))" by auto
  have "\<forall>ev\<in>set (waits (w\<lparr>iter := (iter w)\<lparr>iter_seq := trace_seq_init (iter_seq (iter w))\<rparr>\<rparr>)).
          wake_ret ev \<noteq> - EBUSY"
    using assms(2) by simp
  with assms(1)[unfolded read_pipe_no_leftover[OF nl]]
  show ?thesis by (rule waitagain_EBUSY_fatal)
qed

text \<open>
  Claim C6, as amended. A read call made while a fatal signal is pending returns with
  the store and the wake-ups to come as they were: no record consumed, no wait entered.
  When the session has no text left to deliver and the requested length is not zero,
  it returns \<^verbatim>\<open>-EBUSY\<close>. A wait that the wait primitive ends with an error returns
  that error, and the store is the one the wait left. \<^verbatim>\<open>-EBUSY\<close> differs from
  \<^verbatim>\<open>-EAGAIN\<close>, from zero and from every byte count, and when no wait returns
  \<^verbatim>\<open>-EBUSY\<close> itself, a read call returns it only with a fatal signal pending.
\<close>

theorem fatal_signal_aborts_read:
  "(fatal_signal w \<longrightarrow>
      (\<exists>sret out w'. trace_read_pipe (Suc n) P cls f_flags ubuf cnt w = Some (sret, out, w') \<and>
          rb w' = rb w \<and> waits w' = waits w)) \<and>
   (fatal_signal w \<and> cnt \<noteq> 0 \<and> seq_len (iter_seq (iter w)) \<le> seq_readpos (iter_seq (iter w)) \<longrightarrow>
      trace_read_pipe (Suc n) P cls f_flags ubuf cnt w =
        Some (- EBUSY, [], w\<lparr>iter := (iter w)\<lparr>iter_seq := trace_seq_init (iter_seq (iter w))\<rparr>\<rparr>)) \<and>
   (\<not> fatal_signal w \<and> cnt \<noteq> 0 \<and> seq_len (iter_seq (iter w)) \<le> seq_readpos (iter_seq (iter w)) \<and>
    is_trace_empty (rb w) \<and> f_flags AND O_NONBLOCK = 0 \<and> waits w = ev # evs \<and> wake_ret ev < 0 \<longrightarrow>
      trace_read_pipe (Suc n) P cls f_flags ubuf cnt w =
        Some (wake_ret ev, [],
              w\<lparr>rb := wake_rb ev, iter := (iter w)\<lparr>iter_seq := trace_seq_init (iter_seq (iter w))\<rparr>,
                fatal_signal := wake_fatal ev, waits := evs\<rparr>)) \<and>
   - EBUSY \<noteq> - EAGAIN \<and> - EBUSY < 0 \<and>
   (\<forall>k out w'. trace_read_pipe k P cls f_flags ubuf cnt w = Some (- EBUSY, out, w') \<and>
       (\<forall>e\<in>set (waits w). wake_ret e \<noteq> - EBUSY) \<longrightarrow> fatal_signal w')"
proof (intro conjI impI allI)
  let ?w1 = "w\<lparr>iter := (iter w)\<lparr>iter_seq := trace_seq_init (iter_seq (iter w))\<rparr>\<rparr>"
  {
    assume f: "fatal_signal w"
    show "\<exists>sret out w'. trace_read_pipe (Suc n) P cls f_flags ubuf cnt w = Some (sret, out, w') \<and>
          rb w' = rb w \<and> waits w' = waits w"
    proof (cases "cnt = 0 \<or> seq_readpos (iter_seq (iter w)) < seq_len (iter_seq (iter w))")
      case True
      from read_pipe_leftover[OF True, of "Suc n" P cls f_flags ubuf]
      obtain sret out s' where "trace_read_pipe (Suc n) P cls f_flags ubuf cnt w =
         Some (sret, out, w\<lparr>iter := (iter w)\<lparr>iter_seq := s'\<rparr>\<rparr>)" by blast
      then show ?thesis by simp
    next
      case False
      then have nl: "cnt \<noteq> 0" "seq_len (iter_seq (iter w)) \<le> seq_readpos (iter_seq (iter w))" by auto
      show ?thesis unfolding read_pipe_no_leftover[OF nl] using f by simp
    qed
  }
  {
    assume "fatal_signal w \<and> cnt \<noteq> 0 \<and> seq_len (iter_seq (iter w)) \<le> seq_readpos (iter_seq (iter w))"
    then show "trace_read_pipe (Suc n) P cls f_flags ubuf cnt w = Some (- EBUSY, [], ?w1)"
      by (simp add: read_pipe_no_leftover)
  }
  {
    assume a: "\<not> fatal_signal w \<and> cnt \<noteq> 0 \<and> seq_len (iter_seq (iter w)) \<le> seq_readpos (iter_seq (iter w)) \<and>
      is_trace_empty (rb w) \<and> f_flags AND O_NONBLOCK = 0 \<and> waits w = ev # evs \<and> wake_ret ev < 0"
    then have "trace_wait_pipe f_flags ?w1 = Some (wake_ret ev, ring_buffer_waiting ev ?w1)"
      by (intro wait_interrupted) auto
    with a show "trace_read_pipe (Suc n) P cls f_flags ubuf cnt w =
        Some (wake_ret ev, [],
              w\<lparr>rb := wake_rb ev, iter := (iter w)\<lparr>iter_seq := trace_seq_init (iter_seq (iter w))\<rparr>,
                fatal_signal := wake_fatal ev, waits := evs\<rparr>)"
      by (simp add: read_pipe_no_leftover ring_buffer_waiting_def)
  }
  show "- EBUSY \<noteq> - EAGAIN" "- EBUSY < 0" by (simp_all add: EBUSY_def EAGAIN_def)
  {
    fix k out w'
    assume "trace_read_pipe k P cls f_flags ubuf cnt w = Some (- EBUSY, out, w') \<and>
       (\<forall>e\<in>set (waits w). wake_ret e \<noteq> - EBUSY)"
    then show "fatal_signal w'" using read_pipe_EBUSY_fatal by blast
  }
qed

lemma next_entry_inc_seq [simp]: "iter_seq (trace_next_entry_inc it b) = iter_seq it"
  by (simp add: trace_next_entry_inc_def Let_def)

lemma next_entry_inc_ent [simp]: "iter_ent (trace_next_entry_inc it b) = nxt (find_next_entry b)"
  by (simp add: trace_next_entry_inc_def Let_def)

lemma next_entry_inc_cpu [simp]: "iter_cpu (trace_next_entry_inc it b) = next_cpu (find_next_entry b)"
  by (simp add: trace_next_entry_inc_def Let_def)

lemma consume_entry_seq [simp]: "iter_seq (fst (consume_entry it b)) = iter_seq it"
  by (simp add: consume_entry_def split: prod.splits option.splits)

lemma consume_entry_rb: "snd (consume_entry it b) = snd (ring_buffer_consume b (nat (iter_cpu it)))"
  by (simp add: consume_entry_def split: prod.splits option.splits)

lemma consume_entry_eqD:
  "consume_entry it b = (it', b') \<Longrightarrow>
     b' = snd (ring_buffer_consume b (nat (iter_cpu it))) \<and> iter_seq it' = iter_seq it"
  by (auto simp: consume_entry_def split: prod.splits option.splits)

text \<open>What one pass of the loop does to the store.\<close>

lemma format_iteration_store:
  assumes "format_iteration P cls cnt (it, b) = Break (it', b') \<or>
           format_iteration P cls cnt (it, b) = Continue (it', b')"
  shows "b' = (case nxt (find_next_entry b) of
                 None \<Rightarrow> b
               | Some entry \<Rightarrow>
                   if fst (print_trace_fmt_line P cls (iter_seq it) entry)
                        \<in> {TRACE_TYPE_PARTIAL_LINE, TRACE_TYPE_NO_CONSUME}
                   then b else snd (ring_buffer_consume b (nat (next_cpu (find_next_entry b)))))"
  using assms
  by (auto simp: format_iteration_def Let_def split: option.splits if_splits
      dest!: consume_entry_eqD)

lemma seq_bytes_other [simp]:
  "seq_bytes P (s\<lparr>seq_len := n\<rparr>) = seq_bytes P s"
  "seq_bytes P (s\<lparr>seq_full := f\<rparr>) = seq_bytes P s"
  "seq_bytes P (s\<lparr>seq_readpos := r\<rparr>) = seq_bytes P s"
  by (simp_all add: seq_bytes_def)

lemma seq_bytes_append:
  assumes "n \<le> P"
  shows "take n (seq_bytes P (s\<lparr>seq_buffer := take n (seq_bytes P s) @ x\<rparr>)) = take n (seq_bytes P s)"
proof -
  have l: "length (take n (seq_bytes P s)) = n" using assms by simp
  have "seq_bytes P (s\<lparr>seq_buffer := take n (seq_bytes P s) @ x\<rparr>)
          = take P (take n (seq_bytes P s) @ (x @ replicate P (CHR 0x00)))"
    by (simp add: seq_bytes_def)
  then have "take n (seq_bytes P (s\<lparr>seq_buffer := take n (seq_bytes P s) @ x\<rparr>))
          = take n (take n (seq_bytes P s) @ (x @ replicate P (CHR 0x00)))"
    using assms by (simp add: min_def)
  also have "\<dots> = take n (seq_bytes P s)"
    using l by (metis append_eq_conv_conj)
  finally show ?thesis .
qed

lemma printf_prefix:
  "take (seq_len s) (seq_bytes P (trace_seq_printf P s str)) = take (seq_len s) (seq_bytes P s)"
proof (cases "seq_len s < P")
  case True
  then have le: "seq_len s \<le> P" by simp
  show ?thesis
    unfolding trace_seq_printf_def using True seq_bytes_append[OF le, of s]
    by (simp del: take_append)
next
  case False
  then show ?thesis unfolding trace_seq_printf_def by simp
qed

lemma fmt_line_prefix:
  assumes "\<forall>c\<in>set cls. writes_after_len P (format c)"
  shows "take (seq_len s) (seq_bytes P (snd (print_trace_fmt_line P cls s entry)))
           = take (seq_len s) (seq_bytes P s)"
proof (cases "find_print_event cls (entry_id entry)")
  case None
  then show ?thesis by (simp add: print_trace_fmt_line_def Let_def printf_prefix)
next
  case (Some c)
  then have "c \<in> set cls" by (auto simp: find_print_event_def split: if_splits)
  with assms have "writes_after_len P (format c)" by blast
  with Some show ?thesis
    by (simp add: print_trace_fmt_line_def Let_def writes_after_len_def)
qed

lemma seq_text_rollback:
  assumes "take (seq_len s) (seq_bytes P s') = take (seq_len s) (seq_bytes P s)"
  shows "seq_text P (s'\<lparr>seq_len := seq_len s\<rparr>) = seq_text P s"
proof -
  have "seq_bytes P (s'\<lparr>seq_len := seq_len s\<rparr>) = seq_bytes P s'" by (simp add: seq_bytes_def)
  moreover have "take (min (seq_len s) P) (seq_bytes P x) = take (seq_len s) (seq_bytes P x)" for x
    by (simp add: min_def)
  ultimately show ?thesis using assms by (simp add: seq_text_def trace_seq_used_def)
qed

text \<open>
  Claim C2. In a pass of the format loop in which the merge selects a record and its
  formatter returns the partial-line signal, the loop stops, the write position is the
  one before the attempt, the store is unchanged and the record, still selected, is the
  one the next pass over this store selects first, also after the session's reset.
  When the formatters write only after the write position, the formatted text is what
  it was before the attempt. A pass changes the store only when a record was selected
  and its formatter returned neither the partial-line signal nor
  \<^verbatim>\<open>TRACE_TYPE_NO_CONSUME\<close>, and then by consuming that record.
\<close>

theorem partial_line_rolls_back:
  "(nxt (find_next_entry b) = Some entry \<and>
    fst (print_trace_fmt_line P cls (iter_seq it) entry) = TRACE_TYPE_PARTIAL_LINE \<longrightarrow>
      (\<exists>it'. format_iteration P cls cnt (it, b) = Break (it', b) \<and>
         seq_len (iter_seq it') = seq_len (iter_seq it) \<and>
         iter_ent it' = Some entry \<and>
         iter_ent (trace_next_entry_inc (iter_reset it') b) = Some entry \<and>
         ((\<forall>c\<in>set cls. writes_after_len P (format c)) \<longrightarrow>
            seq_text P (iter_seq it') = seq_text P (iter_seq it)))) \<and>
   (\<forall>it' b'. (format_iteration P cls cnt (it, b) = Break (it', b') \<or>
              format_iteration P cls cnt (it, b) = Continue (it', b')) \<and> b' \<noteq> b \<longrightarrow>
      (\<exists>e. nxt (find_next_entry b) = Some e \<and>
           fst (print_trace_fmt_line P cls (iter_seq it) e) \<noteq> TRACE_TYPE_PARTIAL_LINE \<and>
           fst (print_trace_fmt_line P cls (iter_seq it) e) \<noteq> TRACE_TYPE_NO_CONSUME \<and>
           b' = snd (ring_buffer_consume b (nat (next_cpu (find_next_entry b))))))"
proof (intro conjI impI allI)
  assume a: "nxt (find_next_entry b) = Some entry \<and>
    fst (print_trace_fmt_line P cls (iter_seq it) entry) = TRACE_TYPE_PARTIAL_LINE"
  let ?it1 = "trace_next_entry_inc it b"
  let ?s' = "snd (print_trace_fmt_line P cls (iter_seq it) entry)"
  let ?it' = "?it1\<lparr>iter_seq := ?s'\<lparr>seq_len := seq_len (iter_seq it)\<rparr>\<rparr>"
  have "format_iteration P cls cnt (it, b) = Break (?it', b)"
    using a by (simp add: format_iteration_def Let_def)
  moreover have "seq_len (iter_seq ?it') = seq_len (iter_seq it)" by simp
  moreover have "iter_ent ?it' = Some entry" using a by simp
  moreover have "iter_ent (trace_next_entry_inc (iter_reset ?it') b) = Some entry" using a by simp
  moreover have "(\<forall>c\<in>set cls. writes_after_len P (format c)) \<longrightarrow>
            seq_text P (iter_seq ?it') = seq_text P (iter_seq it)"
    using seq_text_rollback[OF fmt_line_prefix] by simp
  ultimately show "\<exists>it'. format_iteration P cls cnt (it, b) = Break (it', b) \<and>
         seq_len (iter_seq it') = seq_len (iter_seq it) \<and>
         iter_ent it' = Some entry \<and>
         iter_ent (trace_next_entry_inc (iter_reset it') b) = Some entry \<and>
         ((\<forall>c\<in>set cls. writes_after_len P (format c)) \<longrightarrow>
            seq_text P (iter_seq it') = seq_text P (iter_seq it))"
    by blast
next
  fix it' b'
  assume a: "(format_iteration P cls cnt (it, b) = Break (it', b') \<or>
              format_iteration P cls cnt (it, b) = Continue (it', b')) \<and> b' \<noteq> b"
  then have "b' = (case nxt (find_next_entry b) of
                 None \<Rightarrow> b
               | Some entry \<Rightarrow>
                   if fst (print_trace_fmt_line P cls (iter_seq it) entry)
                        \<in> {TRACE_TYPE_PARTIAL_LINE, TRACE_TYPE_NO_CONSUME}
                   then b else snd (ring_buffer_consume b (nat (next_cpu (find_next_entry b)))))"
    by (intro format_iteration_store) blast
  with a show "\<exists>e. nxt (find_next_entry b) = Some e \<and>
           fst (print_trace_fmt_line P cls (iter_seq it) e) \<noteq> TRACE_TYPE_PARTIAL_LINE \<and>
           fst (print_trace_fmt_line P cls (iter_seq it) e) \<noteq> TRACE_TYPE_NO_CONSUME \<and>
           b' = snd (ring_buffer_consume b (nat (next_cpu (find_next_entry b))))"
    by (auto split: option.splits if_splits)
qed

lemma length_dec: "n < 10 ^ k \<Longrightarrow> 0 < k \<Longrightarrow> length (dec n) \<le> k"
proof (induction k arbitrary: n)
  case 0
  then show ?case by simp
next
  case (Suc k)
  show ?case
  proof (cases "n < 10")
    case True
    then show ?thesis by (subst dec.simps) simp
  next
    case False
    then have k: "0 < k" using Suc.prems(1) by (cases k) auto
    have "n div 10 < 10 ^ k" using Suc.prems(1) by (simp add: less_mult_imp_div_less mult.commute)
    then have "length (dec (n div 10)) \<le> k" using k by (rule Suc.IH)
    with False show ?thesis by (subst dec.simps) simp
  qed
qed

lemma unknown_id_line_length: "ident < 2 ^ 16 \<Longrightarrow> length (unknown_id_line ident) \<le> 17"
proof -
  assume "ident < 2 ^ 16"
  then have "ident < 10 ^ 5" by simp
  then have "length (dec ident) \<le> 5" by (rule length_dec) simp
  then show ?thesis by (simp add: unknown_id_line_def)
qed

lemma fallback_line_fits:
  assumes "find_print_event cls (entry_id entry) = None"
    and "\<not> trace_seq_has_overflowed P s"
    and "seq_len s + length (unknown_id_line (entry_id entry)) < P"
  shows "print_trace_fmt_line P cls s entry =
     (TRACE_TYPE_HANDLED,
      s\<lparr>seq_buffer := take (seq_len s) (seq_bytes P s) @ unknown_id_line (entry_id entry),
        seq_len := seq_len s + length (unknown_id_line (entry_id entry))\<rparr>)"
  using assms
  by (simp add: print_trace_fmt_line_def Let_def trace_seq_printf_def trace_seq_has_overflowed_def
      trace_handle_return_def)

lemma iter_reset_seq:
  "iter_seq (iter_reset it) = \<lparr>seq_buffer = [], seq_len = 0, seq_readpos = 0, seq_full = False\<rparr>"
  by (simp add: iter_reset_def Let_def trace_seq_init_def)

lemma seq_text_line:
  assumes "length l < P"
  shows "seq_text P \<lparr>seq_buffer = l, seq_len = length l, seq_readpos = 0, seq_full = False\<rparr> = l"
  using assms by (simp add: seq_text_def seq_bytes_def trace_seq_used_def)

lemma picked_consume:
  assumes "nxt (find_next_entry b) = Some entry"
  shows "Suc (rb_events (snd (ring_buffer_consume b (nat (next_cpu (find_next_entry b)))))) = rb_events b"
proof -
  from assms find_next_entry_picks[of b] obtain c where c: "c < length b" "b ! c \<noteq> []"
      "next_cpu (find_next_entry b) = int c"
    by (auto simp: picks_def scan_init_def split: if_splits)
  then show ?thesis by (simp add: consume_pick rb_events_update)
qed

lemma digit_cases:
  assumes "d < 10"
  shows "d = 0 \<or> d = 1 \<or> d = 2 \<or> d = 3 \<or> d = 4 \<or> d = 5 \<or> d = 6 \<or> d = 7 \<or> d = 8 \<or> d = (9::nat)"
  using assms by arith

lemma digit_val_char: "d < 10 \<Longrightarrow> digit_val (digit_char d) = d"
  using digit_cases[of d] by (auto simp: digit_val_def digit_char_def)

lemma digit_char_in: "d < 10 \<Longrightarrow> digit_char d \<in> set ''0123456789''"
  using digit_cases[of d] by (auto simp: digit_char_def)

lemma undec_snoc: "undec (s @ [c]) = 10 * undec s + digit_val c"
  by (simp add: undec_def)

lemma undec_dec: "undec (dec n) = n"
proof (induction n rule: dec.induct)
  case (1 n)
  show ?case
  proof (cases "n < 10")
    case True
    then show ?thesis by (subst dec.simps) (simp add: undec_def digit_val_char)
  next
    case False
    then have "undec (dec n) = 10 * undec (dec (n div 10)) + digit_val (digit_char (n mod 10))"
      by (subst dec.simps) (simp add: undec_snoc)
    also have "\<dots> = 10 * (n div 10) + n mod 10"
      using "1.IH"[OF False] by (simp add: digit_val_char)
    finally show ?thesis by simp
  qed
qed

lemma dec_digits: "dec n \<noteq> [] \<and> set (dec n) \<subseteq> set ''0123456789''"
proof (induction n rule: dec.induct)
  case (1 n)
  show ?case
  proof (cases "n < 10")
    case True
    then show ?thesis using digit_char_in[of n] by (subst dec.simps, subst (2) dec.simps) simp
  next
    case False
    have "n mod 10 < 10" by simp
    then have "digit_char (n mod 10) \<in> set ''0123456789''" by (rule digit_char_in)
    with False "1.IH"[OF False] show ?thesis by (subst dec.simps, subst (2) dec.simps) simp
  qed
qed

lemma seq_text_appended:
  assumes "seq_len s + length l < P"
  shows "seq_text P (s\<lparr>seq_buffer := take (seq_len s) (seq_bytes P s) @ l,
                       seq_len := seq_len s + length l\<rparr>) = seq_text P s @ l"
proof -
  from assms have le: "seq_len s \<le> P" by simp
  have len: "length (take (seq_len s) (seq_bytes P s)) = seq_len s" using le by simp
  have "seq_text P (s\<lparr>seq_buffer := take (seq_len s) (seq_bytes P s) @ l,
                       seq_len := seq_len s + length l\<rparr>)
      = take (seq_len s + length l)
          (take P ((take (seq_len s) (seq_bytes P s) @ l) @ replicate P (CHR 0x00)))"
    using assms by (simp add: seq_text_def trace_seq_used_def seq_bytes_def min_def)
  also have "\<dots> = take (seq_len s + length l)
          ((take (seq_len s) (seq_bytes P s) @ l) @ replicate P (CHR 0x00))"
    using assms by (simp add: min_def)
  also have "\<dots> = take (seq_len s) (seq_bytes P s) @ l"
    using len by (metis append_eq_conv_conj length_append)
  finally have "seq_text P (s\<lparr>seq_buffer := take (seq_len s) (seq_bytes P s) @ l,
                       seq_len := seq_len s + length l\<rparr>) = take (seq_len s) (seq_bytes P s) @ l" .
  moreover have "take (seq_len s) (seq_bytes P s) = seq_text P s"
    using le by (simp add: seq_text_def trace_seq_used_def min_def)
  ultimately show ?thesis by (simp only:)
qed

lemma fallback_no_room:
  assumes "find_print_event cls (entry_id entry) = None"
    and "trace_seq_has_overflowed P s \<or> P \<le> seq_len s + length (unknown_id_line (entry_id entry))"
  shows "fst (print_trace_fmt_line P cls s entry) = TRACE_TYPE_PARTIAL_LINE"
  using assms
  by (auto simp: print_trace_fmt_line_def Let_def trace_seq_printf_def trace_seq_has_overflowed_def
      trace_handle_return_def)

lemma fmt_line_prefix_fallback:
  assumes "find_print_event cls (entry_id entry) = None"
  shows "take (seq_len s) (seq_bytes P (snd (print_trace_fmt_line P cls s entry)))
           = take (seq_len s) (seq_bytes P s)"
  using assms by (simp add: print_trace_fmt_line_def Let_def printf_prefix)

text \<open>
  Claim C5. For a record whose id is not below the number of classes, and for no
  other, \<^verbatim>\<open>find_print_event\<close> returns \<^verbatim>\<open>NULL\<close>. The fallback line is the text
  \<^verbatim>\<open>Unknown id\<close>, a space, the decimal digits of the id and a newline; the digits
  read back as the id. On a buffer that has not overflowed and has room,
  \<^verbatim>\<open>print_trace_fmt_line\<close> appends that line and returns \<^verbatim>\<open>TRACE_TYPE_HANDLED\<close>.
  In every pass of the format loop that selects such a record, whatever the session
  holds: when the line fits, the pass appends exactly that line to the formatted text
  and consumes the record, leaving the store one record shorter; when it does not fit,
  the pass stops the loop with the text and the store unchanged, and the record is the
  one the next read call selects first. The first pass of a read call, which starts
  from the reset buffer, formats exactly that line and consumes the record whenever the
  line is shorter than a page. The line of a 16-bit id has at most 17 bytes.
\<close>

theorem unknown_id_fallback:
  assumes "length cls \<le> entry_id entry"
  shows "find_print_event cls (entry_id entry) = None \<and>
    (find_print_event cls ident = None \<longleftrightarrow> length cls \<le> ident) \<and>
    unknown_id_line (entry_id entry) = ''Unknown id '' @ dec (entry_id entry) @ ''\<newline>'' \<and>
    undec (dec (entry_id entry)) = entry_id entry \<and>
    dec (entry_id entry) \<noteq> [] \<and> set (dec (entry_id entry)) \<subseteq> set ''0123456789'' \<and>
    (\<not> trace_seq_has_overflowed P s \<and>
     seq_len s + length (unknown_id_line (entry_id entry)) < P \<longrightarrow>
       print_trace_fmt_line P cls s entry =
         (TRACE_TYPE_HANDLED,
          s\<lparr>seq_buffer := take (seq_len s) (seq_bytes P s) @ unknown_id_line (entry_id entry),
            seq_len := seq_len s + length (unknown_id_line (entry_id entry))\<rparr>) \<and>
       seq_text P (snd (print_trace_fmt_line P cls s entry)) =
         seq_text P s @ ''Unknown id '' @ dec (entry_id entry) @ ''\<newline>'') \<and>
    (nxt (find_next_entry b) = Some entry \<and> length (unknown_id_line (entry_id entry)) < P \<longrightarrow>
       (\<exists>it'. (format_iteration P cls cnt (iter_reset it, b) =
                  Break (it', snd (ring_buffer_consume b (nat (next_cpu (find_next_entry b))))) \<or>
               format_iteration P cls cnt (iter_reset it, b) =
                  Continue (it', snd (ring_buffer_consume b (nat (next_cpu (find_next_entry b)))))) \<and>
          seq_text P (iter_seq it') = unknown_id_line (entry_id entry)) \<and>
       Suc (rb_events (snd (ring_buffer_consume b (nat (next_cpu (find_next_entry b))))))
         = rb_events b) \<and>
    (nxt (find_next_entry b) = Some entry \<and> \<not> trace_seq_has_overflowed P (iter_seq it) \<and>
     seq_len (iter_seq it) + length (unknown_id_line (entry_id entry)) < P \<longrightarrow>
       (\<exists>it'. (format_iteration P cls cnt (it, b) =
                  Break (it', snd (ring_buffer_consume b (nat (next_cpu (find_next_entry b))))) \<or>
               format_iteration P cls cnt (it, b) =
                  Continue (it', snd (ring_buffer_consume b (nat (next_cpu (find_next_entry b)))))) \<and>
          iter_ent it' = Some entry \<and>
          seq_text P (iter_seq it') =
            seq_text P (iter_seq it) @ ''Unknown id '' @ dec (entry_id entry) @ ''\<newline>'')) \<and>
    (nxt (find_next_entry b) = Some entry \<and>
     (trace_seq_has_overflowed P (iter_seq it) \<or>
      P \<le> seq_len (iter_seq it) + length (unknown_id_line (entry_id entry))) \<longrightarrow>
       (\<exists>it'. format_iteration P cls cnt (it, b) = Break (it', b) \<and>
          seq_text P (iter_seq it') = seq_text P (iter_seq it) \<and>
          iter_ent (trace_next_entry_inc (iter_reset it') b) = Some entry)) \<and>
    (entry_id entry < 2 ^ 16 \<longrightarrow> length (unknown_id_line (entry_id entry)) \<le> 17)"
proof (intro conjI impI)
  let ?l = "unknown_id_line (entry_id entry)"
  let ?b' = "snd (ring_buffer_consume b (nat (next_cpu (find_next_entry b))))"
  show none: "find_print_event cls (entry_id entry) = None"
    using assms by (simp add: find_print_event_def)
  show "find_print_event cls ident = None \<longleftrightarrow> length cls \<le> ident"
    by (simp add: find_print_event_def)
  show line: "?l = ''Unknown id '' @ dec (entry_id entry) @ ''\<newline>''"
    by (simp add: unknown_id_line_def)
  show "undec (dec (entry_id entry)) = entry_id entry" by (rule undec_dec)
  show "dec (entry_id entry) \<noteq> []" using dec_digits[of "entry_id entry"] by blast
  show "set (dec (entry_id entry)) \<subseteq> set ''0123456789''" using dec_digits[of "entry_id entry"] by blast
  {
    assume a: "\<not> trace_seq_has_overflowed P s \<and> seq_len s + length ?l < P"
    then show fits: "print_trace_fmt_line P cls s entry =
         (TRACE_TYPE_HANDLED,
          s\<lparr>seq_buffer := take (seq_len s) (seq_bytes P s) @ ?l, seq_len := seq_len s + length ?l\<rparr>)"
      using fallback_line_fits[OF none] by blast
    from a have "seq_text P (s\<lparr>seq_buffer := take (seq_len s) (seq_bytes P s) @ ?l,
        seq_len := seq_len s + length ?l\<rparr>) = seq_text P s @ ?l"
      by (intro seq_text_appended) simp
    then show "seq_text P (snd (print_trace_fmt_line P cls s entry)) =
         seq_text P s @ ''Unknown id '' @ dec (entry_id entry) @ ''\<newline>''"
      unfolding fits line[symmetric] by (simp only: snd_conv)
  }
  {
    assume a: "nxt (find_next_entry b) = Some entry \<and> length ?l < P"
    let ?s0 = "\<lparr>seq_buffer = [], seq_len = 0, seq_readpos = 0, seq_full = False\<rparr>"
    let ?s1 = "\<lparr>seq_buffer = ?l, seq_len = length ?l, seq_readpos = 0, seq_full = False\<rparr>"
    let ?it1 = "(trace_next_entry_inc (iter_reset it) b)\<lparr>iter_seq := ?s1\<rparr>"
    have "\<not> trace_seq_has_overflowed P ?s0" by (simp add: trace_seq_has_overflowed_def)
    with a have "print_trace_fmt_line P cls ?s0 entry = (TRACE_TYPE_HANDLED, ?s1)"
      using fallback_line_fits[OF none, of P ?s0] by simp
    then have "format_iteration P cls cnt (iter_reset it, b) =
        (if cnt \<le> trace_seq_used P ?s1 then Break (fst (consume_entry ?it1 b), ?b')
         else Continue (fst (consume_entry ?it1 b), ?b'))"
      using a
      by (simp add: format_iteration_def Let_def iter_reset_seq consume_entry_rb
          prod_eq_iff)
    moreover have "seq_text P (iter_seq (fst (consume_entry ?it1 b))) = ?l"
      using a by (simp add: seq_text_line)
    ultimately show "\<exists>it'. (format_iteration P cls cnt (iter_reset it, b) = Break (it', ?b') \<or>
               format_iteration P cls cnt (iter_reset it, b) = Continue (it', ?b')) \<and>
          seq_text P (iter_seq it') = ?l"
      by (cases "cnt \<le> trace_seq_used P ?s1") auto
    show "Suc (rb_events ?b') = rb_events b" using a picked_consume by blast
  }
  {
    assume a: "nxt (find_next_entry b) = Some entry \<and> \<not> trace_seq_has_overflowed P (iter_seq it) \<and>
       seq_len (iter_seq it) + length ?l < P"
    let ?s = "iter_seq it"
    let ?s1 = "?s\<lparr>seq_buffer := take (seq_len ?s) (seq_bytes P ?s) @ ?l, seq_len := seq_len ?s + length ?l\<rparr>"
    let ?it1 = "(trace_next_entry_inc it b)\<lparr>iter_seq := ?s1\<rparr>"
    from a have fl: "print_trace_fmt_line P cls ?s entry = (TRACE_TYPE_HANDLED, ?s1)"
      using fallback_line_fits[OF none, of P ?s] by blast
    then have "format_iteration P cls cnt (it, b) =
        (if cnt \<le> trace_seq_used P ?s1 then Break (fst (consume_entry ?it1 b), ?b')
         else Continue (fst (consume_entry ?it1 b), ?b'))"
      using a
      by (simp add: format_iteration_def Let_def consume_entry_rb prod_eq_iff)
    moreover have "seq_text P (iter_seq (fst (consume_entry ?it1 b))) =
        seq_text P ?s @ ''Unknown id '' @ dec (entry_id entry) @ ''\<newline>''"
      using a seq_text_appended[of ?s ?l P] unfolding line[symmetric] by simp
    moreover have "iter_ent (fst (consume_entry ?it1 b)) = Some entry"
      using a by (simp add: consume_entry_def split: prod.splits option.splits)
    ultimately show "\<exists>it'. (format_iteration P cls cnt (it, b) = Break (it', ?b') \<or>
               format_iteration P cls cnt (it, b) = Continue (it', ?b')) \<and>
          iter_ent it' = Some entry \<and>
          seq_text P (iter_seq it') =
            seq_text P (iter_seq it) @ ''Unknown id '' @ dec (entry_id entry) @ ''\<newline>''"
      by (cases "cnt \<le> trace_seq_used P ?s1") auto
  }
  {
    assume a: "nxt (find_next_entry b) = Some entry \<and>
       (trace_seq_has_overflowed P (iter_seq it) \<or> P \<le> seq_len (iter_seq it) + length ?l)"
    let ?s' = "snd (print_trace_fmt_line P cls (iter_seq it) entry)"
    let ?it' = "(trace_next_entry_inc it b)\<lparr>iter_seq := ?s'\<lparr>seq_len := seq_len (iter_seq it)\<rparr>\<rparr>"
    from a have pl: "fst (print_trace_fmt_line P cls (iter_seq it) entry) = TRACE_TYPE_PARTIAL_LINE"
      using fallback_no_room[OF none, of P "iter_seq it"] by blast
    have "format_iteration P cls cnt (it, b) = Break (?it', b)"
      using a pl by (simp add: format_iteration_def Let_def)
    moreover have "seq_text P (iter_seq ?it') = seq_text P (iter_seq it)"
      using seq_text_rollback[OF fmt_line_prefix_fallback[OF none]] by simp
    moreover have "iter_ent (trace_next_entry_inc (iter_reset ?it') b) = Some entry" using a by simp
    ultimately show "\<exists>it'. format_iteration P cls cnt (it, b) = Break (it', b) \<and>
          seq_text P (iter_seq it') = seq_text P (iter_seq it) \<and>
          iter_ent (trace_next_entry_inc (iter_reset it') b) = Some entry"
      by blast
  }
  {
    assume "entry_id entry < 2 ^ 16"
    then show "length (unknown_id_line (entry_id entry)) \<le> 17" by (rule unknown_id_line_length)
  }
qed

lemma printf_len: "seq_len s < P \<Longrightarrow> seq_len (trace_seq_printf P s str) < P"
  by (simp add: trace_seq_printf_def)

lemma fmt_line_len:
  assumes "\<forall>c\<in>set cls. leaves_byte_free P (format c)" "seq_len s < P"
  shows "fst (print_trace_fmt_line P cls s entry) = TRACE_TYPE_PARTIAL_LINE \<or>
         seq_len (snd (print_trace_fmt_line P cls s entry)) < P"
proof (cases "find_print_event cls (entry_id entry)")
  case None
  with assms(2) show ?thesis by (simp add: print_trace_fmt_line_def Let_def printf_len)
next
  case (Some c)
  then have "c \<in> set cls" by (auto simp: find_print_event_def split: if_splits)
  with assms have "fst (format c s entry) = TRACE_TYPE_PARTIAL_LINE \<or> seq_len (snd (format c s entry)) < P"
    unfolding leaves_byte_free_def by blast
  with Some show ?thesis by (auto simp: print_trace_fmt_line_def Let_def)
qed

lemma format_iteration_len:
  assumes "\<forall>c\<in>set cls. leaves_byte_free P (format c)" "seq_len (iter_seq it) < P"
    and "format_iteration P cls cnt (it, b) = Break (it', b') \<or>
         format_iteration P cls cnt (it, b) = Continue (it', b')"
  shows "seq_len (iter_seq it') < P"
proof (cases "nxt (find_next_entry b)")
  case None
  with assms(2,3) show ?thesis by (auto simp: format_iteration_def Let_def)
next
  case (Some entry)
  show ?thesis
  proof (cases "fst (print_trace_fmt_line P cls (iter_seq it) entry) = TRACE_TYPE_PARTIAL_LINE")
    case True
    with Some assms(2,3) show ?thesis by (auto simp: format_iteration_def Let_def)
  next
    case False
    with fmt_line_len[OF assms(1,2), of entry]
    have "seq_len (snd (print_trace_fmt_line P cls (iter_seq it) entry)) < P" by blast
    with Some False assms(3) show ?thesis
      by (auto simp: format_iteration_def Let_def split: if_splits dest!: consume_entry_eqD)
  qed
qed

lemma format_loop_len:
  assumes "\<forall>c\<in>set cls. leaves_byte_free P (format c)"
  shows "seq_len (iter_seq it) < P \<Longrightarrow> format_loop n P cls cnt (it, b) = Some (it', b') \<Longrightarrow>
         seq_len (iter_seq it') < P"
proof (induction n arbitrary: it b)
  case 0
  then show ?case by simp
next
  case (Suc n)
  show ?case
  proof (cases "format_iteration P cls cnt (it, b)")
    case (Break st)
    with Suc.prems(2) have "format_iteration P cls cnt (it, b) = Break (it', b')" by simp
    with format_iteration_len[OF assms Suc.prems(1)] show ?thesis by blast
  next
    case (Continue st)
    obtain it1 b1 where st: "st = (it1, b1)" by (cases st)
    with Continue format_iteration_len[OF assms Suc.prems(1)] have "seq_len (iter_seq it1) < P" by blast
    moreover from Continue st Suc.prems(2) have "format_loop n P cls cnt (it1, b1) = Some (it', b')"
      by simp
    ultimately show ?thesis by (rule Suc.IH)
  qed
qed

text \<open>What a pass from \<^verbatim>\<open>waitagain\<close> can return.\<close>

lemma waitagain_bound:
  "trace_read_pipe_waitagain n P cls f_flags ubuf cnt sret w = Some (r, out, w') \<Longrightarrow>
   sret < 0 \<Longrightarrow> reset_or_leftover P (iter_seq (iter w)) \<Longrightarrow>
     length out \<le> cnt \<and> length out \<le> P - 1 \<and> (r = int (length out) \<or> r < 0 \<and> out = []) \<and>
     reset_or_leftover P (iter_seq (iter w'))"
proof (induction n arbitrary: w cnt sret)
  case 0
  then show ?case by simp
next
  case (Suc n)
  show ?case
  proof (cases "fatal_signal w")
    case True
    with Suc.prems show ?thesis by auto
  next
    case nf: False
    show ?thesis
    proof (cases "trace_wait_pipe f_flags w")
      case None
      with nf Suc.prems show ?thesis by simp
    next
      case (Some a)
      obtain r1 w1 where a: "a = (r1, w1)" by (cases a)
      note wr = wait_pipe_result[OF Some[unfolded a]]
      show ?thesis
      proof (cases "r1 \<le> 0 \<or> is_trace_empty (rb w1)")
        case True
        with nf Some a Suc.prems wr show ?thesis
          by (auto split: if_splits)
      next
        case False
        let ?cnt = "if P \<le> cnt then P - 1 else cnt"
        have cb: "?cnt \<le> cnt" "?cnt \<le> P - 1" by auto
        show ?thesis
        proof (cases "format_loop (Suc n) P cls ?cnt (iter_reset (iter w1), rb w1)")
          case None
          with nf Some a False Suc.prems(1) show ?thesis by (simp add: Let_def)
        next
          case fl: (Some st)
          obtain it b where st: "st = (it, b)" by (cases st)
          let ?r = "trace_seq_to_user P (iter_seq it) ubuf ?cnt"
          let ?seq = "if trace_seq_used P (snd (snd ?r)) \<le> seq_readpos (snd (snd ?r))
                      then trace_seq_init (snd (snd ?r)) else snd (snd ?r)"
          let ?w2 = "w1\<lparr>rb := b, iter := it\<lparr>iter_seq := ?seq\<rparr>\<rparr>"
          have inv: "reset_or_leftover P (iter_seq (iter ?w2))"
            by (simp add: reset_or_leftover_def trace_seq_init_def)
          show ?thesis
          proof (cases "fst ?r = - EBUSY")
            case True
            with nf Some a False fl st Suc.prems(1)
            have "trace_read_pipe_waitagain n P cls f_flags ubuf ?cnt (- EBUSY) ?w2 = Some (r, out, w')"
              by (simp add: Let_def)
            from Suc.IH[OF this _ inv]
            have "length out \<le> ?cnt \<and> length out \<le> P - 1 \<and>
                (r = int (length out) \<or> r < 0 \<and> out = []) \<and>
                reset_or_leftover P (iter_seq (iter w'))"
              by (simp add: EBUSY_def)
            with cb show ?thesis by auto
          next
            case ne: False
            with nf Some a False fl st Suc.prems(1)
            have res: "r = fst ?r" "out = fst (snd ?r)" "w' = ?w2"
              by (simp_all add: Let_def)
            have "length (fst (snd ?r)) \<le> ?cnt"
              using to_user_length[of P "iter_seq it" ubuf ?cnt] by simp
            moreover have "fst ?r = int (length (fst (snd ?r))) \<or> fst ?r < 0 \<and> fst (snd ?r) = []"
              using to_user_ret[of P "iter_seq it" ubuf ?cnt] by (auto simp: EBUSY_def EFAULT_def)
            ultimately show ?thesis using res inv cb by auto
          qed
        qed
      qed
    qed
  qed
qed

lemma ex1_find: "find_next_entry [[ex_event t i]] =
    \<lparr>nxt = Some \<lparr>entry_id = i, payload = []\<rparr>, next_cpu = 0, next_ts = of_nat t, next_lost = 0\<rparr>"
  by (simp add: find_next_entry_def for_each_possible_cpu_def ex_event_def
      ring_buffer_empty_cpu_def peek_next_entry_def ring_buffer_peek_def)

lemma ex1_consume: "ring_buffer_consume [[ex_event t i]] 0 = (Some (ex_event t i), [[]])"
  by (simp add: ring_buffer_consume_def)

lemma ex1_nonempty: "\<not> is_trace_empty [[ex_event t i]]"
  by (simp add: is_trace_empty_def for_each_possible_cpu_def ring_buffer_empty_cpu_def)

lemma ex_event_sel:
  "ev_ts (ex_event t i) = of_nat t" "ev_lost (ex_event t i) = 0"
  "ev_data (ex_event t i) = \<lparr>entry_id = i, payload = []\<rparr>"
  by (simp_all add: ex_event_def)

lemma big_iteration:
  "format_iteration 4096 [big_class] 4095 (iter_reset it, [[ex_event 5 0]]) = Break (big_iter, [[]])"
  by (simp add: format_iteration_def Let_def trace_next_entry_inc_def ex1_find iter_reset_def
      trace_seq_init_def print_trace_fmt_line_def find_print_event_def big_class_def big_fmt_def
      trace_seq_puts_def trace_handle_return_def trace_seq_has_overflowed_def seq_bytes_def
      consume_entry_def ex1_consume ex_event_sel trace_seq_used_def big_iter_def)

lemma big_loop:
  "format_loop (Suc 0) 4096 [big_class] 4095 (iter_reset it, [[ex_event 5 0]]) = Some (big_iter, [[]])"
  by (simp add: big_iteration)

lemma ex_world_sel:
  "rb (ex_world txt b sig) = b" "iter (ex_world txt b sig) = ex_iter txt"
  "fatal_signal (ex_world txt b sig) = sig" "waits (ex_world txt b sig) = []"
  by (simp_all add: ex_world_def)

lemma ex_world_init:
  "(ex_world [] b sig)\<lparr>iter := (iter (ex_world [] b sig))
      \<lparr>iter_seq := trace_seq_init (iter_seq (iter (ex_world [] b sig)))\<rparr>\<rparr> = ex_world [] b sig"
  by (simp add: ex_world_def ex_iter_def trace_seq_init_def)

lemma big_read:
  "trace_read_pipe 1 4096 [big_class] 0 10000 10000 (ex_world [] [[ex_event 5 0]] False) =
     Some (4095, replicate 4095 (CHR ''x''),
           \<lparr>rb = [[]], iter = big_iter\<lparr>iter_seq := (iter_seq big_iter)\<lparr>seq_readpos := 4095\<rparr>\<rparr>,
            fatal_signal = False, waits = []\<rparr>)"
proof -
  let ?w = "ex_world [] [[ex_event 5 0]] False"
  have wp: "trace_wait_pipe 0 ?w = Some (1, ?w)"
    by (subst trace_wait_pipe.simps) (simp add: ex_world_sel ex1_nonempty)
  have tu: "trace_seq_to_user 4096 (iter_seq big_iter) 10000 4095 =
      (4095, replicate 4095 (CHR ''x''), (iter_seq big_iter)\<lparr>seq_readpos := 4095\<rparr>)"
    by (simp add: to_user_cases big_iter_def trace_seq_used_def seq_bytes_def)
  have us: "\<not> trace_seq_used 4096 ((iter_seq big_iter)\<lparr>seq_readpos := 4095\<rparr>)
               \<le> 4095"
    by (simp add: big_iter_def trace_seq_used_def)
  have "trace_read_pipe_waitagain (Suc 0) 4096 [big_class] 0 10000 10000 (- EBUSY) ?w =
     Some (4095, replicate 4095 (CHR ''x''),
           ?w\<lparr>rb := [[]], iter := big_iter\<lparr>iter_seq := (iter_seq big_iter)\<lparr>seq_readpos := 4095\<rparr>\<rparr>\<rparr>)"
    by (simp add: wp Let_def big_loop tu us EBUSY_def ex_world_sel ex1_nonempty del: format_loop.simps)
  moreover have "trace_read_pipe 1 4096 [big_class] 0 10000 10000 ?w =
      trace_read_pipe_waitagain 1 4096 [big_class] 0 10000 10000 (- EBUSY) ?w"
    by (subst read_pipe_no_leftover) (simp_all add: ex_world_init, simp add: ex_world_sel ex_iter_def)
  ultimately show ?thesis by (simp add: ex_world_def)
qed

lemma waitagain_clamp:
  "P \<le> cnt \<Longrightarrow>
   trace_read_pipe_waitagain n P cls f_flags ubuf cnt sret w =
   trace_read_pipe_waitagain n P cls f_flags ubuf (P - 1) sret w"
proof (cases n)
  case 0
  then show ?thesis by simp
next
  case (Suc m)
  assume "P \<le> cnt"
  then have "(if P \<le> cnt then P - 1 else cnt) = (if P \<le> P - 1 then P - 1 else P - 1)" by simp
  then show ?thesis unfolding Suc trace_read_pipe_waitagain.simps by (simp only:)
qed

text \<open>
  Claim C10, as amended. From \<^verbatim>\<open>waitagain\<close> on, a requested length of \<^verbatim>\<open>PAGE_SIZE\<close> or
  more has the effect of \<^verbatim>\<open>PAGE_SIZE - 1\<close>. A read call that reaches the format loop
  (no text left to deliver, requested length not zero) copies at most the requested
  length and at most \<^verbatim>\<open>PAGE_SIZE - 1\<close> bytes to the caller, returns their number or a
  value below zero with nothing copied, and leaves the buffer reset or with text for
  the next call's flush of the leftover. What the loop formats is bounded by the
  buffer, \<^verbatim>\<open>PAGE_SIZE\<close> bytes, and by \<^verbatim>\<open>PAGE_SIZE - 1\<close> when every formatter leaves the
  last byte free as \<^verbatim>\<open>trace_seq_printf\<close> does.
\<close>

theorem read_call_clamped:
  "(P \<le> cnt \<longrightarrow>
      trace_read_pipe_waitagain n P cls f_flags ubuf cnt sret w =
      trace_read_pipe_waitagain n P cls f_flags ubuf (P - 1) sret w) \<and>
   (cnt \<noteq> 0 \<and> seq_len (iter_seq (iter w)) \<le> seq_readpos (iter_seq (iter w)) \<and>
    trace_read_pipe n P cls f_flags ubuf cnt w = Some (r, out, w') \<longrightarrow>
      length out \<le> cnt \<and> length out \<le> P - 1 \<and> (r = int (length out) \<or> r < 0 \<and> out = []) \<and>
      reset_or_leftover P (iter_seq (iter w'))) \<and>
   (format_loop k P cls c st = Some (it', b') \<longrightarrow> trace_seq_used P (iter_seq it') \<le> P) \<and>
   (0 < P \<and> (\<forall>x\<in>set cls. leaves_byte_free P (format x)) \<and>
    format_loop k P cls c (iter_reset it, b) = Some (it'', b'') \<longrightarrow>
      trace_seq_used P (iter_seq it'') \<le> P - 1)"
proof (intro conjI impI)
  assume "P \<le> cnt"
  then show "trace_read_pipe_waitagain n P cls f_flags ubuf cnt sret w =
      trace_read_pipe_waitagain n P cls f_flags ubuf (P - 1) sret w"
    by (rule waitagain_clamp)
next
  assume a: "cnt \<noteq> 0 \<and> seq_len (iter_seq (iter w)) \<le> seq_readpos (iter_seq (iter w)) \<and>
    trace_read_pipe n P cls f_flags ubuf cnt w = Some (r, out, w')"
  let ?w1 = "w\<lparr>iter := (iter w)\<lparr>iter_seq := trace_seq_init (iter_seq (iter w))\<rparr>\<rparr>"
  from a have nl: "cnt \<noteq> 0" "seq_len (iter_seq (iter w)) \<le> seq_readpos (iter_seq (iter w))"
    and rd: "trace_read_pipe n P cls f_flags ubuf cnt w = Some (r, out, w')"
    by blast+
  from rd have "trace_read_pipe_waitagain n P cls f_flags ubuf cnt (- EBUSY) ?w1 = Some (r, out, w')"
    unfolding read_pipe_no_leftover[OF nl] .
  moreover have "- EBUSY < 0" by (simp add: EBUSY_def)
  moreover have "reset_or_leftover P (iter_seq (iter ?w1))"
    by (simp add: reset_or_leftover_def trace_seq_init_def)
  ultimately have "length out \<le> cnt \<and> length out \<le> P - 1 \<and>
      (r = int (length out) \<or> r < 0 \<and> out = []) \<and> reset_or_leftover P (iter_seq (iter w'))"
    by (rule waitagain_bound)
  then show "length out \<le> cnt" and "length out \<le> P - 1"
    and "r = int (length out) \<or> r < 0 \<and> out = []"
    and "reset_or_leftover P (iter_seq (iter w'))"
    by blast+
next
  show "trace_seq_used P (iter_seq it') \<le> P" by (simp add: trace_seq_used_def)
next
  assume a: "0 < P \<and> (\<forall>x\<in>set cls. leaves_byte_free P (format x)) \<and>
    format_loop k P cls c (iter_reset it, b) = Some (it'', b'')"
  then have "seq_len (iter_seq (iter_reset it)) < P" by (simp add: iter_reset_seq)
  with a have "seq_len (iter_seq it'') < P" using format_loop_len by blast
  then show "trace_seq_used P (iter_seq it'') \<le> P - 1" by (simp add: trace_seq_used_def)
qed

text \<open>The example formatter keeps to the rules of \<^verbatim>\<open>trace_seq_printf\<close>.\<close>

lemma ex_class_leaves_byte_free: "leaves_byte_free 4096 (format ex_class)"
  by (simp add: leaves_byte_free_def ex_class_def ex_fmt_def Let_def printf_len)

lemma ex_class_writes_after_len: "writes_after_len 4096 (format ex_class)"
  by (simp add: writes_after_len_def ex_class_def ex_fmt_def Let_def printf_prefix)

lemma ex_unknown_line: "unknown_id_line 300 = ''Unknown id 300'' @ [CHR 0x0A]"
  by (simp add: unknown_id_line_def dec.simps digit_char_def)

lemma ex_unknown_iteration:
  "format_iteration 4096 [ex_class] cnt (iter_reset it, [[ex_event 5 300]]) =
     (if cnt \<le> 15 then Break (ex_line_iter, [[]]) else Continue (ex_line_iter, [[]]))"
  by (simp add: format_iteration_def Let_def trace_next_entry_inc_def ex1_find iter_reset_def
      trace_seq_init_def print_trace_fmt_line_def find_print_event_def ex_unknown_line
      trace_seq_printf_def trace_handle_return_def trace_seq_has_overflowed_def seq_bytes_def
      consume_entry_def ex1_consume ex_event_sel trace_seq_used_def ex_line_iter_def)

lemma empty1_find: "find_next_entry [[]] = \<lparr>nxt = None, next_cpu = - 1, next_ts = 0, next_lost = 0\<rparr>"
  by (simp add: find_next_entry_def for_each_possible_cpu_def ring_buffer_empty_cpu_def)

lemma ex_unknown_loop:
  "15 < cnt \<Longrightarrow>
   format_loop (Suc (Suc 0)) 4096 [ex_class] cnt (iter_reset it, [[ex_event 5 300]]) =
     Some (ex_done_iter, [[]])"
  by (simp add: ex_unknown_iteration)
     (simp add: format_iteration_def Let_def trace_next_entry_inc_def empty1_find ex_done_iter_def)

lemma ex_unknown_read:
  "trace_read_pipe 2 4096 [ex_class] 0 10000 10000 (ex_world [] [[ex_event 5 300]] False) =
     Some (15, ''Unknown id 300'' @ [CHR 0x0A], ex_world [] [[]] False\<lparr>iter := ex_done_iter
        \<lparr>iter_seq := trace_seq_init ((iter_seq ex_done_iter)\<lparr>seq_readpos := 15\<rparr>)\<rparr>\<rparr>)"
proof -
  let ?w = "ex_world [] [[ex_event 5 300]] False"
  have wp: "trace_wait_pipe 0 ?w = Some (1, ?w)"
    by (subst trace_wait_pipe.simps) (simp add: ex_world_sel ex1_nonempty)
  have tu: "trace_seq_to_user 4096 (iter_seq ex_done_iter) 10000 4095 =
      (15, ''Unknown id 300'' @ [CHR 0x0A], (iter_seq ex_done_iter)\<lparr>seq_readpos := 15\<rparr>)"
    by (simp add: to_user_cases ex_done_iter_def ex_line_iter_def trace_seq_used_def seq_bytes_def)
  have us: "trace_seq_used 4096 ((iter_seq ex_done_iter)\<lparr>seq_readpos := 15\<rparr>) \<le> 15"
    by (simp add: ex_done_iter_def ex_line_iter_def trace_seq_used_def)
  have "trace_read_pipe_waitagain (Suc (Suc 0)) 4096 [ex_class] 0 10000 10000 (- EBUSY) ?w =
     Some (15, ''Unknown id 300'' @ [CHR 0x0A],
           ?w\<lparr>rb := [[]], iter := ex_done_iter\<lparr>iter_seq :=
               trace_seq_init ((iter_seq ex_done_iter)\<lparr>seq_readpos := 15\<rparr>)\<rparr>\<rparr>)"
    by (simp add: wp Let_def ex_unknown_loop tu us EBUSY_def ex_world_sel ex1_nonempty
        del: format_loop.simps)
  moreover have "trace_read_pipe 2 4096 [ex_class] 0 10000 10000 ?w =
      trace_read_pipe_waitagain 2 4096 [ex_class] 0 10000 10000 (- EBUSY) ?w"
    by (subst read_pipe_no_leftover) (simp_all add: ex_world_init, simp add: ex_world_sel ex_iter_def)
  ultimately show ?thesis by (simp add: ex_world_def numeral_2_eq_2)
qed

text \<open>
  The claim as stated fails: with pages of 4096 bytes, one read call formats a line of
  4096 bytes, one more than \<^verbatim>\<open>PAGE_SIZE - 1\<close>, and delivers 4095 of them.
\<close>

theorem full_page_formatted:
  "format_loop 1 4096 [big_class] (4096 - 1) (iter_reset (ex_iter []), [[ex_event 5 0]])
     = Some (big_iter, [[]]) \<and>
   trace_seq_used 4096 (iter_seq big_iter) = 4096 \<and>
   \<not> trace_seq_used 4096 (iter_seq big_iter) \<le> 4096 - 1 \<and>
   trace_read_pipe 1 4096 [big_class] 0 10000 10000 (ex_world [] [[ex_event 5 0]] False) =
     Some (4095, replicate 4095 (CHR ''x''),
           \<lparr>rb = [[]], iter = big_iter\<lparr>iter_seq := (iter_seq big_iter)\<lparr>seq_readpos := 4095\<rparr>\<rparr>,
            fatal_signal = False, waits = []\<rparr>)"
proof -
  have "format_loop 1 4096 [big_class] (4096 - 1) (iter_reset (ex_iter []), [[ex_event 5 0]])
     = Some (big_iter, [[]])"
    using big_loop[of "ex_iter []"] by simp
  moreover have "trace_seq_used 4096 (iter_seq big_iter) = 4096"
    by (simp add: trace_seq_used_def big_iter_def)
  ultimately show ?thesis using big_read by simp
qed

text \<open>
  The bounds at work: a read with a requested length of 10000 on pages of 4096 bytes,
  over a store holding one record with id 300 and one registered class.
\<close>

theorem read_call_clamped_witness:
  "(4096::nat) \<le> 10000 \<and> (10000::nat) \<noteq> 0 \<and>
   seq_len (iter_seq (iter (ex_world [] [[ex_event 5 300]] False)))
     \<le> seq_readpos (iter_seq (iter (ex_world [] [[ex_event 5 300]] False))) \<and>
   trace_read_pipe 2 4096 [ex_class] 0 10000 10000 (ex_world [] [[ex_event 5 300]] False) =
     Some (15, ''Unknown id 300'' @ [CHR 0x0A], ex_world [] [[]] False\<lparr>iter := ex_done_iter
        \<lparr>iter_seq := trace_seq_init ((iter_seq ex_done_iter)\<lparr>seq_readpos := 15\<rparr>)\<rparr>\<rparr>) \<and>
   length (''Unknown id 300'' @ [CHR 0x0A]) \<le> 4096 - 1 \<and>
   (0::nat) < 4096 \<and> leaves_byte_free 4096 (format ex_class) \<and>
   format_loop 2 4096 [ex_class] 4095 (iter_reset (ex_iter []), [[ex_event 5 300]])
     = Some (ex_done_iter, [[]]) \<and>
   trace_seq_used 4096 (iter_seq ex_done_iter) \<le> 4096 - 1 \<and>
   trace_read_pipe_waitagain 2 4096 [ex_class] 0 10000 10000 (- EBUSY)
       (ex_world [] [[ex_event 5 300]] False) =
     trace_read_pipe_waitagain 2 4096 [ex_class] 0 10000 (4096 - 1) (- EBUSY)
       (ex_world [] [[ex_event 5 300]] False)"
proof -
  let ?w = "ex_world [] [[ex_event 5 300]] False"
  let ?w' = "ex_world [] [[]] False\<lparr>iter := ex_done_iter
        \<lparr>iter_seq := trace_seq_init ((iter_seq ex_done_iter)\<lparr>seq_readpos := 15\<rparr>)\<rparr>\<rparr>"
  have nl: "seq_len (iter_seq (iter ?w)) \<le> seq_readpos (iter_seq (iter ?w))"
    by (simp add: ex_world_sel ex_iter_def)
  have fl: "format_loop 2 4096 [ex_class] 4095 (iter_reset (ex_iter []), [[ex_event 5 300]])
     = Some (ex_done_iter, [[]])"
    using ex_unknown_loop[of 4095 "ex_iter []"] by (simp add: numeral_2_eq_2)
  have lb: "\<forall>x\<in>set [ex_class]. leaves_byte_free 4096 (format x)"
    by (simp add: ex_class_leaves_byte_free)
  note inst = read_call_clamped[of 4096 10000 2 "[ex_class]" 0 10000 "- EBUSY" ?w 15
      "''Unknown id 300'' @ [CHR 0x0A]" ?w' 2 4095 "(iter_reset (ex_iter []), [[ex_event 5 300]])"
      ex_done_iter "[[]]" "ex_iter []" "[[ex_event 5 300]]" ex_done_iter "[[]]"]
  have h2: "(10000::nat) \<noteq> 0 \<and> seq_len (iter_seq (iter ?w)) \<le> seq_readpos (iter_seq (iter ?w)) \<and>
      trace_read_pipe 2 4096 [ex_class] 0 10000 10000 ?w = Some (15, ''Unknown id 300'' @ [CHR 0x0A], ?w')"
    using nl ex_unknown_read by simp
  have h4: "(0::nat) < 4096 \<and> (\<forall>x\<in>set [ex_class]. leaves_byte_free 4096 (format x)) \<and>
      format_loop 2 4096 [ex_class] 4095 (iter_reset (ex_iter []), [[ex_event 5 300]])
        = Some (ex_done_iter, [[]])"
    using fl lb by simp
  have h1: "(4096::nat) \<le> 10000" by simp
  from inst[THEN conjunct2, THEN conjunct1, THEN mp, OF h2]
  have a: "length (''Unknown id 300'' @ [CHR 0x0A]) \<le> 4096 - 1" by blast
  from inst[THEN conjunct2, THEN conjunct2, THEN conjunct2, THEN mp, OF h4]
  have b: "trace_seq_used 4096 (iter_seq ex_done_iter) \<le> 4096 - 1" .
  from inst[THEN conjunct1, THEN mp, OF h1]
  have c: "trace_read_pipe_waitagain 2 4096 [ex_class] 0 10000 10000 (- EBUSY) ?w =
     trace_read_pipe_waitagain 2 4096 [ex_class] 0 10000 (4096 - 1) (- EBUSY) ?w" .
  from a b c nl fl ex_unknown_read ex_class_leaves_byte_free show ?thesis by (intro conjI) simp_all
qed

text \<open>
  The fallback at work: one class is registered, the record has id 300; the line is
  \<^verbatim>\<open>Unknown id 300\<close>. A pass from a reset session formats it and consumes the record,
  a pass from a session that already holds one line appends it, a pass from a session
  holding 4090 of 4096 bytes stops with the record still in the store, and the read call
  delivers the line and leaves the store empty.
\<close>

theorem unknown_id_fallback_witness:
  "length [ex_class] \<le> entry_id \<lparr>entry_id = 300, payload = []\<rparr> \<and>
   nxt (find_next_entry [[ex_event 5 300]]) = Some \<lparr>entry_id = 300, payload = []\<rparr> \<and>
   find_print_event [ex_class] 300 = None \<and>
   unknown_id_line 300 = ''Unknown id 300'' @ [CHR 0x0A] \<and>
   dec 300 = ''300'' \<and> undec ''300'' = 300 \<and>
   length (unknown_id_line 300) < 4096 \<and>
   \<not> trace_seq_has_overflowed 4096 (iter_seq (ex_iter [])) \<and>
   fst (print_trace_fmt_line 4096 [ex_class] (iter_seq (ex_iter [])) \<lparr>entry_id = 300, payload = []\<rparr>)
     = TRACE_TYPE_HANDLED \<and>
   (300::nat) < 2 ^ 16 \<and> length (unknown_id_line 300) \<le> 17 \<and>
   format_iteration 4096 [ex_class] 100 (iter_reset (ex_iter []), [[ex_event 5 300]])
     = Continue (ex_line_iter, [[]]) \<and>
   seq_text 4096 (iter_seq ex_line_iter) = ''Unknown id 300'' @ [CHR 0x0A] \<and>
   rb_events [[ex_event 5 300]] = Suc (rb_events [[]]) \<and>
   \<not> trace_seq_has_overflowed 4096 (iter_seq ex_line_iter) \<and>
   seq_len (iter_seq ex_line_iter) + length (unknown_id_line 300) < 4096 \<and>
   (\<exists>it'. (format_iteration 4096 [ex_class] 100 (ex_line_iter, [[ex_event 5 300]]) = Break (it', [[]]) \<or>
           format_iteration 4096 [ex_class] 100 (ex_line_iter, [[ex_event 5 300]]) = Continue (it', [[]])) \<and>
          iter_ent it' = Some \<lparr>entry_id = 300, payload = []\<rparr> \<and>
          seq_text 4096 (iter_seq it') = ''Unknown id 300\<newline>Unknown id 300\<newline>'') \<and>
   4096 \<le> seq_len (iter_seq ex_nearly_full) + length (unknown_id_line 300) \<and>
   (\<exists>it'. format_iteration 4096 [ex_class] 100 (ex_nearly_full, [[ex_event 5 300]])
            = Break (it', [[ex_event 5 300]]) \<and>
          seq_text 4096 (iter_seq it') = replicate 4090 (CHR ''x'') \<and>
          iter_ent (trace_next_entry_inc (iter_reset it') [[ex_event 5 300]])
            = Some \<lparr>entry_id = 300, payload = []\<rparr>) \<and>
   trace_read_pipe 2 4096 [ex_class] 0 10000 10000 (ex_world [] [[ex_event 5 300]] False) =
     Some (15, ''Unknown id 300'' @ [CHR 0x0A], ex_world [] [[]] False\<lparr>iter := ex_done_iter
        \<lparr>iter_seq := trace_seq_init ((iter_seq ex_done_iter)\<lparr>seq_readpos := 15\<rparr>)\<rparr>\<rparr>)"
proof -
  let ?e = "\<lparr>entry_id = 300, payload = []\<rparr>"
  let ?b = "[[ex_event 5 300]]"
  have h: "length [ex_class] \<le> entry_id ?e" by simp
  have n: "nxt (find_next_entry ?b) = Some ?e" by (simp add: ex1_find)
  have d: "dec 300 = ''300''" by (simp add: dec.simps digit_char_def)
  have it: "format_iteration 4096 [ex_class] 100 (iter_reset (ex_iter []), ?b)
     = Continue (ex_line_iter, [[]])"
    by (simp add: ex_unknown_iteration)
  have st: "seq_text 4096 (iter_seq ex_line_iter) = ''Unknown id 300'' @ [CHR 0x0A]"
    by (simp add: seq_text_def ex_line_iter_def trace_seq_used_def seq_bytes_def)
  have cb: "snd (ring_buffer_consume ?b (nat (next_cpu (find_next_entry ?b)))) = [[]]"
    by (simp add: ex1_find ex1_consume)
  note i1 = unknown_id_fallback[OF h, where P = 4096, where s = "iter_seq (ex_iter [])",
      where b = ?b, where cnt = 100, where it = "ex_iter []"]
  note i2 = unknown_id_fallback[OF h, where P = 4096, where b = ?b, where cnt = 100,
      where it = ex_line_iter]
  note i3 = unknown_id_fallback[OF h, where P = 4096, where b = ?b, where cnt = 100,
      where it = ex_nearly_full]
  from i1 have a: "find_print_event [ex_class] 300 = None" by simp
  from i1[THEN conjunct2, THEN conjunct2, THEN conjunct1]
  have ul: "unknown_id_line 300 = ''Unknown id 300'' @ [CHR 0x0A]" by (simp add: d)
  from i1[THEN conjunct2, THEN conjunct2, THEN conjunct2, THEN conjunct1]
  have ud: "undec ''300'' = 300" by (simp add: d)
  have l: "length (unknown_id_line (entry_id ?e)) < 4096" by (simp add: ul)
  have ov: "\<not> trace_seq_has_overflowed 4096 (iter_seq (ex_iter [])) \<and>
      seq_len (iter_seq (ex_iter [])) + length (unknown_id_line (entry_id ?e)) < 4096"
    by (simp add: trace_seq_has_overflowed_def ex_iter_def ul)
  note c6 = i1[THEN conjunct2, THEN conjunct2, THEN conjunct2, THEN conjunct2, THEN conjunct2, THEN conjunct2,
      THEN conjunct1, THEN mp, OF ov]
  from c6
  have hd: "fst (print_trace_fmt_line 4096 [ex_class] (iter_seq (ex_iter [])) ?e) = TRACE_TYPE_HANDLED"
    by simp
  have sm: "entry_id ?e < 2 ^ 16" by simp
  note c10 = i1[THEN conjunct2, THEN conjunct2, THEN conjunct2, THEN conjunct2, THEN conjunct2, THEN conjunct2,
      THEN conjunct2, THEN conjunct2, THEN conjunct2, THEN conjunct2, THEN mp, OF sm]
  from c10 have le: "length (unknown_id_line 300) \<le> 17" by simp
  have h7: "nxt (find_next_entry ?b) = Some ?e \<and> length (unknown_id_line (entry_id ?e)) < 4096"
    using n l by simp
  note c7 = i1[THEN conjunct2, THEN conjunct2, THEN conjunct2, THEN conjunct2, THEN conjunct2, THEN conjunct2,
      THEN conjunct2, THEN conjunct1, THEN mp, OF h7]
  from c7 have "Suc (rb_events (snd (ring_buffer_consume ?b
      (nat (next_cpu (find_next_entry ?b)))))) = rb_events ?b"
    by blast
  then have b: "rb_events ?b = Suc (rb_events [[]])" by (simp only: cb)
  have r1: "\<not> trace_seq_has_overflowed 4096 (iter_seq ex_line_iter)"
    by (simp add: trace_seq_has_overflowed_def ex_line_iter_def)
  have r2: "seq_len (iter_seq ex_line_iter) + length (unknown_id_line 300) < 4096"
    by (simp add: ex_line_iter_def ul)
  have h8: "nxt (find_next_entry ?b) = Some ?e \<and> \<not> trace_seq_has_overflowed 4096 (iter_seq ex_line_iter) \<and>
     seq_len (iter_seq ex_line_iter) + length (unknown_id_line (entry_id ?e)) < 4096"
    using n r1 r2 by simp
  note c8 = i2[THEN conjunct2, THEN conjunct2, THEN conjunct2, THEN conjunct2, THEN conjunct2, THEN conjunct2,
      THEN conjunct2, THEN conjunct2, THEN conjunct1, THEN mp, OF h8]
  have p8: "\<exists>it'. (format_iteration 4096 [ex_class] 100 (ex_line_iter, ?b) = Break (it', [[]]) \<or>
           format_iteration 4096 [ex_class] 100 (ex_line_iter, ?b) = Continue (it', [[]])) \<and>
          iter_ent it' = Some ?e \<and>
          seq_text 4096 (iter_seq it') = ''Unknown id 300\<newline>Unknown id 300\<newline>''"
    using c8 unfolding cb st by (simp add: d)
  have r3: "4096 \<le> seq_len (iter_seq ex_nearly_full) + length (unknown_id_line 300)"
    by (simp add: ex_nearly_full_def ex_iter_def ul)
  have h9: "nxt (find_next_entry ?b) = Some ?e \<and>
     (trace_seq_has_overflowed 4096 (iter_seq ex_nearly_full) \<or>
      4096 \<le> seq_len (iter_seq ex_nearly_full) + length (unknown_id_line (entry_id ?e)))"
    using n r3 by simp
  note c9 = i3[THEN conjunct2, THEN conjunct2, THEN conjunct2, THEN conjunct2, THEN conjunct2, THEN conjunct2,
      THEN conjunct2, THEN conjunct2, THEN conjunct2, THEN conjunct1, THEN mp, OF h9]
  have s9: "seq_text 4096 (iter_seq ex_nearly_full) = replicate 4090 (CHR ''x'')"
    by (simp add: seq_text_def ex_nearly_full_def ex_iter_def trace_seq_used_def seq_bytes_def)
  have p9: "\<exists>it'. format_iteration 4096 [ex_class] 100 (ex_nearly_full, ?b) = Break (it', ?b) \<and>
          seq_text 4096 (iter_seq it') = replicate 4090 (CHR ''x'') \<and>
          iter_ent (trace_next_entry_inc (iter_reset it') ?b) = Some ?e"
    using c9 unfolding s9 .
  have l2: "length (unknown_id_line 300) < 4096" using l by simp
  have ov1: "\<not> trace_seq_has_overflowed 4096 (iter_seq (ex_iter []))" using ov by simp
  have sm2: "(300::nat) < 2 ^ 16" by simp
  have a0: "find_print_event [ex_class] 300 = None" using a by simp
  show ?thesis
    using h n a0 ul d ud l2 ov1 hd sm2 le it st b r1 r2 p8 r3 p9 ex_unknown_read
    by (intro conjI)
qed

lemma ex_partial:
  "fst (print_trace_fmt_line 4096 [ex_class] (iter_seq ex_nearly_full) \<lparr>entry_id = 0, payload = []\<rparr>)
     = TRACE_TYPE_PARTIAL_LINE"
  by (simp add: print_trace_fmt_line_def find_print_event_def Let_def ex_class_def ex_fmt_def
      trace_seq_has_overflowed_def trace_seq_printf_def trace_handle_return_def
      ex_nearly_full_def ex_iter_def dec.simps)

text \<open>
  The rollback at work: the buffer holds 4090 of 4096 bytes, the line of the record does
  not fit, and the pass stops with 4090 bytes and the record still in the store; on an
  empty buffer the pass formats the line and consumes the record.
\<close>

theorem partial_line_rolls_back_witness:
  "nxt (find_next_entry [[ex_event 5 0]]) = Some \<lparr>entry_id = 0, payload = []\<rparr> \<and>
   fst (print_trace_fmt_line 4096 [ex_class] (iter_seq ex_nearly_full) \<lparr>entry_id = 0, payload = []\<rparr>)
     = TRACE_TYPE_PARTIAL_LINE \<and>
   writes_after_len 4096 (format ex_class) \<and>
   (\<exists>it'. format_iteration 4096 [ex_class] 4095 (ex_nearly_full, [[ex_event 5 0]])
             = Break (it', [[ex_event 5 0]]) \<and>
          seq_len (iter_seq it') = 4090 \<and>
          seq_text 4096 (iter_seq it') = replicate 4090 (CHR ''x'')) \<and>
   format_iteration 4096 [ex_class] 4095 (iter_reset (ex_iter []), [[ex_event 5 300]])
     = Continue (ex_line_iter, [[]]) \<and>
   [[]] \<noteq> [[ex_event 5 300]] \<and>
   fst (print_trace_fmt_line 4096 [ex_class] (iter_seq (iter_reset (ex_iter [])))
          \<lparr>entry_id = 300, payload = []\<rparr>) \<noteq> TRACE_TYPE_PARTIAL_LINE"
proof -
  let ?e = "\<lparr>entry_id = 0, payload = []\<rparr>"
  have n: "nxt (find_next_entry [[ex_event 5 0]]) = Some ?e" by (simp add: ex1_find)
  have w: "\<forall>c\<in>set [ex_class]. writes_after_len 4096 (format c)"
    by (simp add: ex_class_writes_after_len)
  have t: "seq_text 4096 (iter_seq ex_nearly_full) = replicate 4090 (CHR ''x'')"
    "seq_len (iter_seq ex_nearly_full) = 4090"
    by (simp_all add: seq_text_def ex_nearly_full_def ex_iter_def trace_seq_used_def seq_bytes_def)
  note inst1 = partial_line_rolls_back[of "[[ex_event 5 0]]" ?e 4096 "[ex_class]" ex_nearly_full 4095]
  from inst1 n ex_partial w
  have a: "\<exists>it'. format_iteration 4096 [ex_class] 4095 (ex_nearly_full, [[ex_event 5 0]])
             = Break (it', [[ex_event 5 0]]) \<and>
          seq_len (iter_seq it') = seq_len (iter_seq ex_nearly_full) \<and>
          seq_text 4096 (iter_seq it') = seq_text 4096 (iter_seq ex_nearly_full)"
    by blast
  have it: "format_iteration 4096 [ex_class] 4095 (iter_reset (ex_iter []), [[ex_event 5 300]])
     = Continue (ex_line_iter, [[]])"
    by (simp add: ex_unknown_iteration)
  have ne: "[[]] \<noteq> [[ex_event 5 300]]" by simp
  have n3: "nxt (find_next_entry [[ex_event 5 300]]) = Some \<lparr>entry_id = 300, payload = []\<rparr>"
    by (simp add: ex1_find)
  note inst2 = partial_line_rolls_back[of "[[ex_event 5 300]]" ?e 4096 "[ex_class]"
      "iter_reset (ex_iter [])" 4095]
  from inst2 it ne
  have "\<exists>e. nxt (find_next_entry [[ex_event 5 300]]) = Some e \<and>
      fst (print_trace_fmt_line 4096 [ex_class] (iter_seq (iter_reset (ex_iter []))) e)
        \<noteq> TRACE_TYPE_PARTIAL_LINE"
    by blast
  with n3 have b: "fst (print_trace_fmt_line 4096 [ex_class] (iter_seq (iter_reset (ex_iter [])))
          \<lparr>entry_id = 300, payload = []\<rparr>) \<noteq> TRACE_TYPE_PARTIAL_LINE"
    by auto
  from a t have a': "\<exists>it'. format_iteration 4096 [ex_class] 4095 (ex_nearly_full, [[ex_event 5 0]])
             = Break (it', [[ex_event 5 0]]) \<and>
          seq_len (iter_seq it') = 4090 \<and>
          seq_text 4096 (iter_seq it') = replicate 4090 (CHR ''x'')"
    by simp
  from n ex_partial ex_class_writes_after_len a' it ne b show ?thesis by blast
qed

text \<open>
  The cancellation at work: with a fatal signal pending the read of a store that holds
  records returns \<^verbatim>\<open>-EBUSY\<close> and changes nothing; a blocking read of an empty store
  whose wait is interrupted returns the wait's \<^verbatim>\<open>-EINTR\<close>.
\<close>

theorem fatal_signal_aborts_read_witness:
  "fatal_signal (ex_world [] ex_rb True) \<and> (10::nat) \<noteq> 0 \<and>
   seq_len (iter_seq (iter (ex_world [] ex_rb True)))
     \<le> seq_readpos (iter_seq (iter (ex_world [] ex_rb True))) \<and>
   trace_read_pipe 1 4096 [] 0 10 10 (ex_world [] ex_rb True) =
     Some (- EBUSY, [], ex_world [] ex_rb True) \<and>
   \<not> fatal_signal (ex_world [] ex_empty_rb False\<lparr>waits := [\<lparr>wake_rb = ex_empty_rb, wake_fatal = True, wake_ret = - EINTR\<rparr>]\<rparr>) \<and>
   is_trace_empty ex_empty_rb \<and> (0::32 word) AND O_NONBLOCK = 0 \<and> - EINTR < 0 \<and>
   trace_read_pipe 1 4096 [] 0 10 10
     (ex_world [] ex_empty_rb False\<lparr>waits := [\<lparr>wake_rb = ex_empty_rb, wake_fatal = True, wake_ret = - EINTR\<rparr>]\<rparr>) =
     Some (- EINTR, [], ex_world [] ex_empty_rb True)"
proof -
  let ?w = "ex_world [] ex_rb True"
  let ?ev = "\<lparr>wake_rb = ex_empty_rb, wake_fatal = True, wake_ret = - EINTR\<rparr>"
  let ?v = "ex_world [] ex_empty_rb False\<lparr>waits := [?ev]\<rparr>"
  have h: "fatal_signal ?w" "seq_len (iter_seq (iter ?w)) \<le> seq_readpos (iter_seq (iter ?w))"
    by (simp_all add: ex_world_sel ex_iter_def)
  have g: "\<not> fatal_signal ?v" "seq_len (iter_seq (iter ?v)) \<le> seq_readpos (iter_seq (iter ?v))"
    "is_trace_empty (rb ?v)" "(0::32 word) AND O_NONBLOCK = 0" "waits ?v = ?ev # []"
    "wake_ret ?ev < 0"
    by (simp_all add: ex_world_sel ex_iter_def ex_empty EINTR_def)
  from fatal_signal_aborts_read[of ?w 0 4096 "[]" 0 10 10] h
  have "trace_read_pipe 1 4096 [] 0 10 10 ?w =
     Some (- EBUSY, [], ?w\<lparr>iter := (iter ?w)\<lparr>iter_seq := trace_seq_init (iter_seq (iter ?w))\<rparr>\<rparr>)"
    by simp
  then have a: "trace_read_pipe 1 4096 [] 0 10 10 ?w = Some (- EBUSY, [], ?w)"
    by (simp only: ex_world_init)
  from fatal_signal_aborts_read[of ?v 0 4096 "[]" 0 10 10 ?ev "[]"] g
  have "trace_read_pipe 1 4096 [] 0 10 10 ?v =
     Some (wake_ret ?ev, [],
           ?v\<lparr>rb := wake_rb ?ev, iter := (iter ?v)\<lparr>iter_seq := trace_seq_init (iter_seq (iter ?v))\<rparr>,
                fatal_signal := wake_fatal ?ev, waits := []\<rparr>)"
    by simp
  then have b: "trace_read_pipe 1 4096 [] 0 10 10 ?v = Some (- EINTR, [], ex_world [] ex_empty_rb True)"
    by (simp add: ex_world_def ex_iter_def trace_seq_init_def)
  from a b h g show ?thesis by (simp add: ex_empty)
qed

text \<open>
  The claim as stated fails: with three bytes of formatted text left in the session, a
  blocking read made while a fatal signal is pending returns those three bytes, the
  same result as without the signal.
\<close>

theorem fatal_signal_read_returns_leftover:
  "fatal_signal (ex_world ''abc'' ex_rb True) \<and> (0::32 word) AND O_NONBLOCK = 0 \<and>
   trace_read_pipe 1 4096 [] 0 10 10 (ex_world ''abc'' ex_rb True) =
     Some (3, ''abc'', (ex_world ''abc'' ex_rb True)
        \<lparr>iter := (ex_iter ''abc'')\<lparr>iter_seq := (iter_seq (ex_iter ''abc''))\<lparr>seq_readpos := 3\<rparr>\<rparr>\<rparr>) \<and>
   trace_read_pipe 1 4096 [] 0 10 10 (ex_world ''abc'' ex_rb False) =
     Some (3, ''abc'', (ex_world ''abc'' ex_rb False)
        \<lparr>iter := (ex_iter ''abc'')\<lparr>iter_seq := (iter_seq (ex_iter ''abc''))\<lparr>seq_readpos := 3\<rparr>\<rparr>\<rparr>)"
  by (simp add: trace_read_pipe_def to_user_cases ex_world_def ex_iter_def trace_seq_used_def
      seq_bytes_def EBUSY_def Let_def)

section \<open>The order of consumption\<close>

lemma format_iteration_after:
  assumes "format_iteration P cls cnt (it, b) = Break (it', b') \<or>
           format_iteration P cls cnt (it, b) = Continue (it', b')"
  shows "b' = b \<or> b' = merge_consume b"
  using format_iteration_store[OF assms]
  by (auto simp: merge_consume_def split: option.splits if_splits)

lemma format_iteration_empty:
  "is_trace_empty b \<Longrightarrow> format_iteration P cls cnt (it, b) = Break (trace_next_entry_inc it b, b)"
proof -
  assume "is_trace_empty b"
  then have "nxt (find_next_entry b) = None" by (simp add: none_iff_empty)
  then show ?thesis by (simp add: format_iteration_def Let_def)
qed

lemma format_iteration_consumes:
  assumes "nxt (find_next_entry b) = Some e"
    and "fst (print_trace_fmt_line P cls (iter_seq it) e) \<noteq> TRACE_TYPE_PARTIAL_LINE"
    and "fst (print_trace_fmt_line P cls (iter_seq it) e) \<noteq> TRACE_TYPE_NO_CONSUME"
  shows "\<exists>it'. format_iteration P cls cnt (it, b) =
            (if cnt \<le> trace_seq_used P (snd (print_trace_fmt_line P cls (iter_seq it) e))
             then Break (it', merge_consume b) else Continue (it', merge_consume b)) \<and>
          iter_ent it' = Some e \<and> iter_ts it' = next_ts (find_next_entry b) \<and>
          iter_seq it' = snd (print_trace_fmt_line P cls (iter_seq it) e)"
proof -
  from assms(1) have "nxt (find_next_entry b) \<noteq> None" by simp
  then obtain c where c: "c < length b" "b ! c \<noteq> []"
    "find_next_entry b = \<lparr>nxt = Some (ev_data (hd (b ! c))), next_cpu = int c,
               next_ts = ev_ts (hd (b ! c)), next_lost = ev_lost (hd (b ! c))\<rparr>"
    "merge_consume b = b[c := tl (b ! c)]"
    by (rule picked)
  from c(1,2) have rc: "ring_buffer_consume b c = (Some (hd (b ! c)), b[c := tl (b ! c)])"
    by (cases "b ! c") (simp_all add: ring_buffer_consume_def)
  let ?r = "print_trace_fmt_line P cls (iter_seq it) e"
  let ?it1 = "(trace_next_entry_inc it b)\<lparr>iter_seq := snd ?r\<rparr>"
  have ce: "consume_entry ?it1 b =
      (?it1\<lparr>iter_ts := ev_ts (hd (b ! c)), iter_lost_events := ev_lost (hd (b ! c))\<rparr>, merge_consume b)"
    by (simp add: consume_entry_def c(3,4) rc)
  let ?it' = "?it1\<lparr>iter_ts := ev_ts (hd (b ! c)), iter_lost_events := ev_lost (hd (b ! c))\<rparr>"
  have "format_iteration P cls cnt (it, b) =
            (if cnt \<le> trace_seq_used P (snd ?r)
             then Break (?it', merge_consume b) else Continue (?it', merge_consume b))"
    using assms by (simp add: format_iteration_def Let_def ce)
  moreover have "iter_ent ?it' = Some e" using assms(1) by simp
  moreover have "iter_ts ?it' = next_ts (find_next_entry b)" by (simp add: c(3))
  moreover have "iter_seq ?it' = snd ?r" by simp
  ultimately show ?thesis by blast
qed

lemma format_loop_after:
  "format_loop n P cls cnt (it, b) = Some (it', b') \<Longrightarrow> \<exists>k\<le>n. b' = rb_after k b"
proof (induction n arbitrary: it b)
  case 0
  then show ?case by simp
next
  case (Suc n)
  show ?case
  proof (cases "format_iteration P cls cnt (it, b)")
    case (Break st)
    with Suc.prems have "format_iteration P cls cnt (it, b) = Break (it', b')" by simp
    then have "b' = b \<or> b' = merge_consume b" by (intro format_iteration_after) blast
    then have "b' = rb_after 0 b \<or> b' = rb_after (Suc 0) b" by simp
    then show ?thesis by (metis le0 Suc_le_mono)
  next
    case (Continue st)
    obtain it1 b1 where st: "st = (it1, b1)" by (cases st)
    with Continue Suc.prems have "format_loop n P cls cnt (it1, b1) = Some (it', b')" by simp
    then obtain k where k: "k \<le> n" "b' = rb_after k b1" using Suc.IH by blast
    from Continue st have "b1 = b \<or> b1 = merge_consume b" by (intro format_iteration_after) blast
    then show ?thesis
    proof
      assume "b1 = b"
      with k show ?thesis by (intro exI[of _ k]) simp
    next
      assume "b1 = merge_consume b"
      with k show ?thesis by (intro exI[of _ "Suc k"]) simp
    qed
  qed
qed

lemma format_iteration_break:
  assumes "format_iteration P cls cnt (it, b) = Break (it', b')"
  shows "is_trace_empty b' \<and> iter_ent it' = None \<or>
         cnt \<le> trace_seq_used P (iter_seq it') \<or>
         b' = b \<and> iter_ent it' \<noteq> None \<and> iter_ent it' = nxt (find_next_entry b') \<and>
           seq_len (iter_seq it') = seq_len (iter_seq it)"
  using assms
  by (auto simp: format_iteration_def Let_def none_iff_empty[symmetric]
      split: option.splits if_splits)

lemma format_loop_exit:
  "format_loop n P cls cnt (it, b) = Some (it', b') \<Longrightarrow>
     is_trace_empty b' \<and> iter_ent it' = None \<or>
     cnt \<le> trace_seq_used P (iter_seq it') \<or>
     iter_ent it' \<noteq> None \<and> iter_ent it' = nxt (find_next_entry b')"
proof (induction n arbitrary: it b)
  case 0
  then show ?case by simp
next
  case (Suc n)
  show ?case
  proof (cases "format_iteration P cls cnt (it, b)")
    case (Break st)
    with Suc.prems have "format_iteration P cls cnt (it, b) = Break (it', b')" by simp
    from format_iteration_break[OF this] show ?thesis by blast
  next
    case (Continue st)
    obtain it1 b1 where st: "st = (it1, b1)" by (cases st)
    with Continue Suc.prems have "format_loop n P cls cnt (it1, b1) = Some (it', b')" by simp
    then show ?thesis by (rule Suc.IH)
  qed
qed

lemma fmt_line_consumes:
  assumes "\<forall>c\<in>set cls. \<forall>s e. fst (format c s e) \<noteq> TRACE_TYPE_NO_CONSUME"
  shows "fst (print_trace_fmt_line P cls s entry) \<noteq> TRACE_TYPE_NO_CONSUME"
proof (cases "find_print_event cls (entry_id entry)")
  case None
  then show ?thesis by (simp add: print_trace_fmt_line_def Let_def trace_handle_return_def)
next
  case (Some c)
  then have "c \<in> set cls" by (auto simp: find_print_event_def split: if_splits)
  with assms have "fst (format c s entry) \<noteq> TRACE_TYPE_NO_CONSUME" by blast
  with Some show ?thesis by (simp add: print_trace_fmt_line_def Let_def)
qed

lemma format_loop_returns:
  assumes "\<forall>c\<in>set cls. \<forall>s e. fst (format c s e) \<noteq> TRACE_TYPE_NO_CONSUME"
  shows "rb_events b \<le> n \<Longrightarrow> \<exists>it' b'. format_loop (Suc n) P cls cnt (it, b) = Some (it', b')"
proof (induction n arbitrary: it b)
  case 0
  then have "is_trace_empty b" by (simp add: empty_iff_no_events)
  then show ?case by (simp add: format_iteration_empty)
next
  case (Suc n)
  show ?case
  proof (cases "format_iteration P cls cnt (it, b)")
    case (Break st)
    then show ?thesis by (cases st) simp
  next
    case (Continue st)
    obtain it1 b1 where st: "st = (it1, b1)" by (cases st)
    have ne: "nxt (find_next_entry b) \<noteq> None"
      using Continue by (auto simp: format_iteration_def Let_def split: option.splits)
    then obtain e where e: "nxt (find_next_entry b) = Some e" by auto
    have np: "fst (print_trace_fmt_line P cls (iter_seq it) e) \<noteq> TRACE_TYPE_PARTIAL_LINE"
      using Continue e by (auto simp: format_iteration_def Let_def split: if_splits)
    from format_iteration_consumes[OF e np fmt_line_consumes[OF assms], of cnt] Continue st
    have "b1 = merge_consume b" by (auto split: if_splits)
    moreover have "0 < rb_events b" using ne by (simp add: none_iff_empty empty_iff_no_events)
    ultimately have "rb_events b1 \<le> n" using Suc.prems by (simp add: rb_events_merge_consume)
    then obtain it' b' where "format_loop (Suc n) P cls cnt (it1, b1) = Some (it', b')"
      using Suc.IH by blast
    with Continue st show ?thesis by simp
  qed
qed

lemma wait_pipe_quiet:
  "waits w = [] \<Longrightarrow> trace_wait_pipe f_flags w = Some (r, w') \<Longrightarrow> w' = w"
  by (subst (asm) trace_wait_pipe.simps) (auto split: if_splits)

lemma waitagain_after:
  "trace_read_pipe_waitagain n P cls f_flags ubuf cnt sret w = Some (r, out, w') \<Longrightarrow>
   waits w = [] \<Longrightarrow> waits w' = [] \<and> (\<exists>k. rb w' = rb_after k (rb w))"
proof (induction n arbitrary: w cnt sret)
  case 0
  then show ?case by simp
next
  case (Suc n)
  have z: "rb w = rb_after 0 (rb w)" by simp
  show ?case
  proof (cases "fatal_signal w")
    case True
    with Suc.prems have "w' = w" by simp
    with z Suc.prems(2) show ?thesis by blast
  next
    case nf: False
    show ?thesis
    proof (cases "trace_wait_pipe f_flags w")
      case None
      with nf Suc.prems show ?thesis by simp
    next
      case (Some a)
      obtain r1 w1 where a: "a = (r1, w1)" by (cases a)
      have w1: "w1 = w" using wait_pipe_quiet[OF Suc.prems(2) Some[unfolded a]] .
      show ?thesis
      proof (cases "r1 \<le> 0 \<or> is_trace_empty (rb w1)")
        case True
        with nf Some a Suc.prems(1) have "w' = w1" by (auto split: if_splits)
        with w1 z Suc.prems(2) show ?thesis by blast
      next
        case False
        let ?cnt = "if P \<le> cnt then P - 1 else cnt"
        show ?thesis
        proof (cases "format_loop (Suc n) P cls ?cnt (iter_reset (iter w1), rb w1)")
          case None
          with nf Some a False Suc.prems(1) show ?thesis by (simp add: Let_def)
        next
          case fl: (Some st)
          obtain it b where st: "st = (it, b)" by (cases st)
          from format_loop_after[OF fl[unfolded st]] w1
          obtain k where k: "b = rb_after k (rb w)" by blast
          let ?r = "trace_seq_to_user P (iter_seq it) ubuf ?cnt"
          let ?seq = "if trace_seq_used P (snd (snd ?r)) \<le> seq_readpos (snd (snd ?r))
                      then trace_seq_init (snd (snd ?r)) else snd (snd ?r)"
          let ?w2 = "w1\<lparr>rb := b, iter := it\<lparr>iter_seq := ?seq\<rparr>\<rparr>"
          show ?thesis
          proof (cases "fst ?r = - EBUSY")
            case True
            with nf Some a False fl st Suc.prems(1)
            have "trace_read_pipe_waitagain n P cls f_flags ubuf ?cnt (- EBUSY) ?w2 = Some (r, out, w')"
              by (simp add: Let_def)
            moreover have "waits ?w2 = []" using Suc.prems(2) w1 by simp
            ultimately obtain j where j: "waits w' = []" "rb w' = rb_after j (rb ?w2)"
              using Suc.IH by blast
            then have "rb w' = rb_after (k + j) (rb w)" using k by (simp add: rb_after_add)
            with j(1) show ?thesis by blast
          next
            case ne: False
            with nf Some a False fl st Suc.prems(1)
            have "w' = ?w2" by (simp add: Let_def)
            with k Suc.prems(2) w1 show ?thesis by auto
          qed
        qed
      qed
    qed
  qed
qed

lemma read_pipe_after:
  assumes "trace_read_pipe n P cls f_flags ubuf cnt w = Some (r, out, w')" "waits w = []"
  shows "waits w' = [] \<and> (\<exists>k. rb w' = rb_after k (rb w))"
proof (cases "fst (trace_seq_to_user P (iter_seq (iter w)) ubuf cnt) = - EBUSY")
  case False
  with assms(1) have "rb w' = rb w" "waits w' = waits w" by (auto simp: trace_read_pipe_def Let_def)
  then have "rb w' = rb_after 0 (rb w)" "waits w' = []" using assms(2) by simp_all
  then show ?thesis by blast
next
  case True
  let ?w0 = "w\<lparr>iter := (iter w)\<lparr>iter_seq :=
        trace_seq_init (snd (snd (trace_seq_to_user P (iter_seq (iter w)) ubuf cnt)))\<rparr>\<rparr>"
  from True assms(1)
  have "trace_read_pipe_waitagain n P cls f_flags ubuf cnt (- EBUSY) ?w0 = Some (r, out, w')"
    by (simp add: trace_read_pipe_def Let_def)
  moreover have "waits ?w0 = []" using assms(2) by simp
  ultimately have "waits w' = [] \<and> (\<exists>k. rb w' = rb_after k (rb ?w0))" by (rule waitagain_after)
  then show ?thesis by simp
qed

lemma iter_reset_eq:
  "iter_reset it = \<lparr>iter_seq = \<lparr>seq_buffer = [], seq_len = 0, seq_readpos = 0, seq_full = False\<rparr>,
                    iter_ent = None, iter_lost_events = 0, iter_cpu = 0, iter_ts = 0\<rparr>"
  by (simp add: iter_reset_def Let_def trace_seq_init_def)

lemma take_seq_bytes_text:
  "length tx < P \<Longrightarrow>
   take (length tx) (seq_bytes P \<lparr>seq_buffer = tx, seq_len = n, seq_readpos = r, seq_full = f\<rparr>) = tx"
  by (simp add: seq_bytes_def)

lemma fallback_pass:
  assumes fn: "find_next_entry b = \<lparr>nxt = Some e, next_cpu = int c, next_ts = t, next_lost = l\<rparr>"
    and rc: "ring_buffer_consume b c = (Some ev, b')"
    and unk: "length cls \<le> entry_id e"
    and line: "unknown_id_line (entry_id e) = ln"
    and len: "length tx = n" "length ln = m"
    and room: "n + m < P"
  shows "format_iteration P cls cnt
           (\<lparr>iter_seq = \<lparr>seq_buffer = tx, seq_len = n, seq_readpos = 0, seq_full = False\<rparr>,
             iter_ent = x, iter_lost_events = y, iter_cpu = z, iter_ts = u\<rparr>, b) =
         (if cnt \<le> n + m
          then Break
            (\<lparr>iter_seq = \<lparr>seq_buffer = tx @ ln, seq_len = n + m, seq_readpos = 0, seq_full = False\<rparr>,
              iter_ent = Some e, iter_lost_events = ev_lost ev, iter_cpu = int c, iter_ts = ev_ts ev\<rparr>, b')
          else Continue
            (\<lparr>iter_seq = \<lparr>seq_buffer = tx @ ln, seq_len = n + m, seq_readpos = 0, seq_full = False\<rparr>,
              iter_ent = Some e, iter_lost_events = ev_lost ev, iter_cpu = int c, iter_ts = ev_ts ev\<rparr>, b'))"
proof -
  from room len have lt: "length tx < P" by simp
  from unk have fp: "find_print_event cls (entry_id e) = None" by (simp add: find_print_event_def)
  show ?thesis
    using room len(2) unfolding len(1)[symmetric]
    by (simp add: format_iteration_def Let_def trace_next_entry_inc_def fn print_trace_fmt_line_def
        fp trace_seq_has_overflowed_def trace_seq_printf_def line
        take_seq_bytes_text[OF lt] trace_handle_return_def consume_entry_def rc trace_seq_used_def)
qed

lemma empty_pass:
  assumes "find_next_entry b = \<lparr>nxt = None, next_cpu = - 1, next_ts = 0, next_lost = 0\<rparr>"
  shows "format_iteration P cls cnt
           (\<lparr>iter_seq = s, iter_ent = x, iter_lost_events = y, iter_cpu = z, iter_ts = u\<rparr>, b) =
         Break (\<lparr>iter_seq = s, iter_ent = None, iter_lost_events = 0, iter_cpu = - 1, iter_ts = 0\<rparr>, b)"
  by (simp add: format_iteration_def Let_def trace_next_entry_inc_def assms)

lemmas find_defs = find_next_entry_def for_each_possible_cpu_def ex_event_def
  ring_buffer_empty_cpu_def peek_next_entry_def ring_buffer_peek_def upt_rec

lemma unordered_find:
  "find_next_entry unordered_rb =
     \<lparr>nxt = Some \<lparr>entry_id = 4, payload = []\<rparr>, next_cpu = int 1, next_ts = 4, next_lost = 0\<rparr>"
  "find_next_entry [[ex_event 9 9, ex_event 2 2], []] =
     \<lparr>nxt = Some \<lparr>entry_id = 9, payload = []\<rparr>, next_cpu = int 0, next_ts = 9, next_lost = 0\<rparr>"
  "find_next_entry [[ex_event 2 2], []] =
     \<lparr>nxt = Some \<lparr>entry_id = 2, payload = []\<rparr>, next_cpu = int 0, next_ts = 2, next_lost = 0\<rparr>"
  "find_next_entry [[], []] = \<lparr>nxt = None, next_cpu = - 1, next_ts = 0, next_lost = 0\<rparr>"
  by (simp_all add: find_defs unordered_rb_def)

lemma unordered_consume:
  "ring_buffer_consume unordered_rb 1 = (Some (ex_event 4 4), [[ex_event 9 9, ex_event 2 2], []])"
  "ring_buffer_consume [[ex_event 9 9, ex_event 2 2], []] 0 = (Some (ex_event 9 9), [[ex_event 2 2], []])"
  "ring_buffer_consume [[ex_event 2 2], []] 0 = (Some (ex_event 2 2), [[], []])"
  by (simp_all add: ring_buffer_consume_def unordered_rb_def)

lemma small_lines:
  "unknown_id_line (entry_id \<lparr>entry_id = 1, payload = []\<rparr>) = ''Unknown id 1\<newline>''"
  "unknown_id_line (entry_id \<lparr>entry_id = 2, payload = []\<rparr>) = ''Unknown id 2\<newline>''"
  "unknown_id_line (entry_id \<lparr>entry_id = 4, payload = []\<rparr>) = ''Unknown id 4\<newline>''"
  "unknown_id_line (entry_id \<lparr>entry_id = 9, payload = []\<rparr>) = ''Unknown id 9\<newline>''"
  by (simp_all add: unknown_id_line_def dec.simps digit_char_def)

lemma unordered_loop:
  "format_loop (Suc 3) 4096 [] 100 (iter_reset it, unordered_rb) =
     Some (\<lparr>iter_seq = \<lparr>seq_buffer = ''Unknown id 4\<newline>Unknown id 9\<newline>Unknown id 2\<newline>'',
                          seq_len = 39, seq_readpos = 0, seq_full = False\<rparr>,
             iter_ent = None, iter_lost_events = 0, iter_cpu = - 1, iter_ts = 0\<rparr>, [[], []])"
proof -
  have four: "Suc 3 = Suc (Suc (Suc (Suc 0)))" by simp
  have p1: "format_iteration 4096 [] 100 (iter_reset it, unordered_rb) =
      Continue (\<lparr>iter_seq = \<lparr>seq_buffer = ''Unknown id 4\<newline>'', seq_len = 13, seq_readpos = 0,
                              seq_full = False\<rparr>,
                 iter_ent = Some \<lparr>entry_id = 4, payload = []\<rparr>, iter_lost_events = 0,
                 iter_cpu = 1, iter_ts = 4\<rparr>, [[ex_event 9 9, ex_event 2 2], []])"
    using fallback_pass[OF unordered_find(1) unordered_consume(1) _ small_lines(3), where cls = "[]", where tx = "[]",
        where n = 0, where m = 13, where P = 4096, where cnt = 100]
    by (simp add: ex_event_sel iter_reset_eq)
  have p2: "format_iteration 4096 [] 100
       (\<lparr>iter_seq = \<lparr>seq_buffer = ''Unknown id 4\<newline>'', seq_len = 13, seq_readpos = 0,
                     seq_full = False\<rparr>,
                 iter_ent = x, iter_lost_events = y, iter_cpu = z, iter_ts = u\<rparr>,
        [[ex_event 9 9, ex_event 2 2], []]) =
      Continue (\<lparr>iter_seq = \<lparr>seq_buffer = ''Unknown id 4\<newline>Unknown id 9\<newline>'', seq_len = 26,
                     seq_readpos = 0, seq_full = False\<rparr>,
                 iter_ent = Some \<lparr>entry_id = 9, payload = []\<rparr>, iter_lost_events = 0,
                 iter_cpu = 0, iter_ts = 9\<rparr>, [[ex_event 2 2], []])" for x y z u
    using fallback_pass[OF unordered_find(2) unordered_consume(2) _ small_lines(4),
        where cls = "[]", where tx = "''Unknown id 4\<newline>''", where n = 13, where m = 13, where P = 4096, where cnt = 100]
    by (simp add: ex_event_sel)
  have p3: "format_iteration 4096 [] 100
       (\<lparr>iter_seq = \<lparr>seq_buffer = ''Unknown id 4\<newline>Unknown id 9\<newline>'', seq_len = 26,
                     seq_readpos = 0, seq_full = False\<rparr>,
                 iter_ent = x, iter_lost_events = y, iter_cpu = z, iter_ts = u\<rparr>,
        [[ex_event 2 2], []]) =
      Continue (\<lparr>iter_seq = \<lparr>seq_buffer = ''Unknown id 4\<newline>Unknown id 9\<newline>Unknown id 2\<newline>'',
                     seq_len = 39, seq_readpos = 0, seq_full = False\<rparr>,
                 iter_ent = Some \<lparr>entry_id = 2, payload = []\<rparr>, iter_lost_events = 0,
                 iter_cpu = 0, iter_ts = 2\<rparr>, [[], []])" for x y z u
    using fallback_pass[OF unordered_find(3) unordered_consume(3) _ small_lines(2),
        where cls = "[]", where tx = "''Unknown id 4\<newline>Unknown id 9\<newline>''", where n = 26, where m = 13,
        where P = 4096, where cnt = 100]
    by (simp add: ex_event_sel)
  show ?thesis
    unfolding four
    by (simp add: p1 p2 p3 empty_pass[OF unordered_find(4)])
qed

lemma read_fresh:
  assumes ne: "\<not> is_trace_empty b"
    and fl: "format_loop (Suc n) P cls cnt (iter_reset (ex_iter []), b) =
       Some (\<lparr>iter_seq = \<lparr>seq_buffer = tx, seq_len = m, seq_readpos = 0, seq_full = False\<rparr>,
              iter_ent = x, iter_lost_events = y, iter_cpu = z, iter_ts = u\<rparr>, b')"
    and len: "length tx = m" "0 < m" "m \<le> cnt" "cnt < P" "m \<le> ubuf"
  shows "trace_read_pipe (Suc n) P cls 0 ubuf cnt (ex_world [] b False) =
     Some (int m, tx,
           \<lparr>rb = b',
              iter = \<lparr>iter_seq = \<lparr>seq_buffer = tx, seq_len = 0, seq_readpos = 0, seq_full = False\<rparr>,
                       iter_ent = x, iter_lost_events = y, iter_cpu = z, iter_ts = u\<rparr>,
              fatal_signal = False, waits = []\<rparr>)"
proof -
  let ?w = "ex_world [] b False"
  let ?s = "\<lparr>seq_buffer = tx, seq_len = m, seq_readpos = 0, seq_full = False\<rparr>"
  have wp: "trace_wait_pipe 0 ?w = Some (1, ?w)"
    using ne by (subst trace_wait_pipe.simps) (simp add: ex_world_sel)
  have lt: "length tx < P" using len by simp
  have mn: "min (min cnt m) ubuf = m" using len by simp
  have tu: "trace_seq_to_user P ?s ubuf cnt = (int m, tx, ?s\<lparr>seq_readpos := m\<rparr>)"
    using len take_seq_bytes_text[OF lt, of m 0 False]
    by (simp add: to_user_cases trace_seq_used_def mn)
  have us: "trace_seq_used P \<lparr>seq_buffer = tx, seq_len = m, seq_readpos = m, seq_full = False\<rparr> \<le> m"
    by (simp add: trace_seq_used_def)
  have cl: "(if P \<le> cnt then P - 1 else cnt) = cnt" using len by simp
  have "trace_read_pipe_waitagain (Suc n) P cls 0 ubuf cnt (- EBUSY) ?w =
     Some (int m, tx, ?w\<lparr>rb := b', iter := \<lparr>iter_seq = trace_seq_init (?s\<lparr>seq_readpos := m\<rparr>),
              iter_ent = x, iter_lost_events = y, iter_cpu = z, iter_ts = u\<rparr>\<rparr>)"
    using ne len(2)
    by (simp add: wp Let_def cl ex_world_sel fl tu us EBUSY_def del: format_loop.simps)
  moreover have "trace_read_pipe (Suc n) P cls 0 ubuf cnt ?w =
      trace_read_pipe_waitagain (Suc n) P cls 0 ubuf cnt (- EBUSY) ?w"
    using len by (subst read_pipe_no_leftover) (simp_all add: ex_world_init, simp add: ex_world_sel ex_iter_def)
  ultimately show ?thesis by (simp add: ex_world_def trace_seq_init_def)
qed

lemma unordered_read:
  "trace_read_pipe 4 4096 [] 0 100 100 (ex_world [] unordered_rb False) =
     Some (39, ''Unknown id 4\<newline>Unknown id 9\<newline>Unknown id 2\<newline>'',
           \<lparr>rb = [[], []],
              iter = \<lparr>iter_seq = \<lparr>seq_buffer = ''Unknown id 4\<newline>Unknown id 9\<newline>Unknown id 2\<newline>'',
                                    seq_len = 0, seq_readpos = 0, seq_full = False\<rparr>,
                       iter_ent = None, iter_lost_events = 0, iter_cpu = - 1, iter_ts = 0\<rparr>,
              fatal_signal = False, waits = []\<rparr>)"
proof -
  have ne: "\<not> is_trace_empty unordered_rb"
    by (simp add: is_trace_empty_def for_each_possible_cpu_def unordered_rb_def
        ring_buffer_empty_cpu_def upt_rec)
  have four: "(4::nat) = Suc 3" by simp
  show ?thesis
    unfolding four
    using read_fresh[OF ne unordered_loop, where ubuf = 100] by simp
qed

lemma unordered_drain: "drain 3 unordered_rb = [4, 9, 2]"
proof -
  have three: "(3::nat) = Suc (Suc (Suc 0))" by simp
  have c1: "ring_buffer_consume unordered_rb (Suc 0) =
      (Some (ex_event 4 4), [[ex_event 9 9, ex_event 2 2], []])"
    using unordered_consume(1) by simp
  show ?thesis
    unfolding three
    by (simp add: unordered_find unordered_consume c1)
qed

lemma read_pipe_delivers:
  assumes "cnt \<noteq> 0" "seq_len (iter_seq (iter w)) \<le> seq_readpos (iter_seq (iter w))"
    and "\<not> fatal_signal w" "\<not> is_trace_empty (rb w)" "cnt < P"
    and fl: "format_loop (Suc n) P cls cnt (iter_reset (iter w), rb w) = Some (it1, b1)"
    and rp: "seq_readpos (iter_seq it1) < seq_len (iter_seq it1)"
  shows "\<exists>w1. trace_read_pipe (Suc n) P cls f_flags ubuf cnt w =
           Some (fst (trace_seq_to_user P (iter_seq it1) ubuf cnt),
                 fst (snd (trace_seq_to_user P (iter_seq it1) ubuf cnt)), w1) \<and> rb w1 = b1"
proof -
  let ?w0 = "w\<lparr>iter := (iter w)\<lparr>iter_seq := trace_seq_init (iter_seq (iter w))\<rparr>\<rparr>"
  let ?r = "trace_seq_to_user P (iter_seq it1) ubuf cnt"
  have wp: "trace_wait_pipe f_flags ?w0 = Some (1, ?w0)"
    using assms(4) by (subst trace_wait_pipe.simps) simp
  have cl: "(if P \<le> cnt then P - 1 else cnt) = cnt" using assms(5) by simp
  have nb: "fst ?r \<noteq> - EBUSY" using rp by (simp add: to_user_EBUSY_iff)
  note fl' = fl[unfolded iter_reset_eq]
  have "\<exists>w1. trace_read_pipe_waitagain (Suc n) P cls f_flags ubuf cnt (- EBUSY) ?w0 =
           Some (fst ?r, fst (snd ?r), w1) \<and> rb w1 = b1"
    using assms(3,4) nb
    by (simp add: wp Let_def cl iter_reset_eq fl' del: format_loop.simps)
  then show ?thesis unfolding read_pipe_no_leftover[OF assms(1,2)] .
qed

text \<open>
  Claim C1, as amended. \<^verbatim>\<open>is_trace_empty\<close> holds exactly when every CPU's buffer is
  empty. When it does not hold, \<^verbatim>\<open>__find_next_entry\<close> returns the record \<open>e\<close> at the
  head of some CPU \<open>c\<close>, with that CPU, its time stamp and its lost-event count; no
  CPU's head record has a smaller time stamp, and every lower CPU's head record has a
  strictly larger one, so among equal time stamps the lowest CPU is taken; the merge
  step removes that record and nothing else. When it holds, the result is \<^verbatim>\<open>NULL\<close>
  with \<^verbatim>\<open>next_cpu = -1\<close>, and the format loop returns at once with the store as it was.

  The read loop and the read call consume by merge steps only. A pass whose formatter
  returns neither the partial-line signal nor \<^verbatim>\<open>TRACE_TYPE_NO_CONSUME\<close> takes exactly
  the selected record and stores its time stamp in the session. The store that
  \<open>format_loop\<close> returns is the store after at most as many merge steps as it made
  passes, and the loop has stopped because the store is empty, because the requested
  length is reached, or on a record still selected. When no formatter returns
  \<^verbatim>\<open>TRACE_TYPE_NO_CONSUME\<close>, the loop returns within one pass more than the store has
  records. A read call with nothing left over from the call before, on a store that is
  not empty and with no fatal signal pending, delivers what its loop has formatted and
  leaves the store its loop has left. When no producer appends during a read call, the
  store it leaves is the store after some number of merge steps, so a sequence of read
  calls takes the records in the order of \<open>drain\<close>.

  That order is the order of the time stamps when each CPU's buffer holds its records
  in non-decreasing time-stamp order (\<open>rb_ordered\<close>), which the claim does not state:
  then the time stamps taken are sorted, none of them is larger than a time stamp left
  in the store, and the store left is ordered again.
\<close>

theorem find_next_entry_earliest:
  "(is_trace_empty b \<longleftrightarrow> (\<forall>c<length b. ring_buffer_empty_cpu b c)) \<and>
   (\<not> is_trace_empty b \<longrightarrow>
      (\<exists>c e. ring_buffer_peek b c = Some e \<and>
         find_next_entry b =
           \<lparr>nxt = Some (ev_data e), next_cpu = int c, next_ts = ev_ts e, next_lost = ev_lost e\<rparr> \<and>
         (\<forall>j e'. ring_buffer_peek b j = Some e' \<longrightarrow> ev_ts e \<le> ev_ts e') \<and>
         (\<forall>j e'. j < c \<and> ring_buffer_peek b j = Some e' \<longrightarrow> ev_ts e < ev_ts e') \<and>
         merge_consume b = b[c := tl (b ! c)] \<and>
         drain (Suc k) b = ev_ts e # drain k (merge_consume b))) \<and>
   (is_trace_empty b \<longrightarrow>
      find_next_entry b = \<lparr>nxt = None, next_cpu = - 1, next_ts = 0, next_lost = 0\<rparr> \<and>
      merge_consume b = b \<and> drain k b = [] \<and>
      format_loop (Suc n) P cls cnt (it, b) = Some (trace_next_entry_inc it b, b)) \<and>
   (nxt (find_next_entry b) = Some ent \<and>
    fst (print_trace_fmt_line P cls (iter_seq it) ent) \<noteq> TRACE_TYPE_PARTIAL_LINE \<and>
    fst (print_trace_fmt_line P cls (iter_seq it) ent) \<noteq> TRACE_TYPE_NO_CONSUME \<longrightarrow>
      (\<exists>it1. (format_iteration P cls cnt (it, b) = Break (it1, merge_consume b) \<or>
              format_iteration P cls cnt (it, b) = Continue (it1, merge_consume b)) \<and>
             iter_ent it1 = Some ent \<and> iter_ts it1 = next_ts (find_next_entry b))) \<and>
   (format_loop n P cls cnt (it, b) = Some (it', b') \<longrightarrow>
      (\<exists>i\<le>n. b' = rb_after i b) \<and>
      (is_trace_empty b' \<and> iter_ent it' = None \<or>
       cnt \<le> trace_seq_used P (iter_seq it') \<or>
       iter_ent it' \<noteq> None \<and> iter_ent it' = nxt (find_next_entry b'))) \<and>
   ((\<forall>c\<in>set cls. \<forall>s e. fst (format c s e) \<noteq> TRACE_TYPE_NO_CONSUME) \<and> rb_events b \<le> n \<longrightarrow>
      (\<exists>it1 b1. format_loop (Suc n) P cls cnt (it, b) = Some (it1, b1))) \<and>
   (waits w = [] \<and> trace_read_pipe n P cls f_flags ubuf cnt w = Some (r, out, w') \<longrightarrow>
      waits w' = [] \<and> (\<exists>i. rb w' = rb_after i (rb w))) \<and>
   (cnt \<noteq> 0 \<and> seq_len (iter_seq (iter w)) \<le> seq_readpos (iter_seq (iter w)) \<and>
    \<not> fatal_signal w \<and> \<not> is_trace_empty (rb w) \<and> cnt < P \<and>
    format_loop (Suc n) P cls cnt (iter_reset (iter w), rb w) = Some (it', b') \<and>
    seq_readpos (iter_seq it') < seq_len (iter_seq it') \<longrightarrow>
      (\<exists>w1. trace_read_pipe (Suc n) P cls f_flags ubuf cnt w =
              Some (fst (trace_seq_to_user P (iter_seq it') ubuf cnt),
                    fst (snd (trace_seq_to_user P (iter_seq it') ubuf cnt)), w1) \<and>
            rb w1 = b' \<and> (\<exists>i\<le>Suc n. b' = rb_after i (rb w)))) \<and>
   drain (k + j) b = drain k b @ drain j (rb_after k b) \<and>
   rb_after (k + j) b = rb_after j (rb_after k b) \<and>
   length (drain k b) = min k (rb_events b) \<and>
   rb_events (rb_after k b) = rb_events b - k \<and>
   (rb_ordered b \<longrightarrow>
      sorted (drain k b) \<and> rb_ordered (rb_after k b) \<and>
      (\<forall>t\<in>set (drain k b). all_ge t (rb_after k b)))"
proof (intro conjI impI)
  show "is_trace_empty b \<longleftrightarrow> (\<forall>c<length b. ring_buffer_empty_cpu b c)"
    by (simp add: is_trace_empty_iff ring_buffer_empty_cpu_def)
next
  assume ne: "\<not> is_trace_empty b"
  then have "\<not> (\<forall>j<length b. b ! j = [])" by (simp add: is_trace_empty_iff)
  with find_next_entry_picks[of b] obtain c where c: "c < length b" "b ! c \<noteq> []"
      "find_next_entry b = \<lparr>nxt = Some (ev_data (hd (b ! c))), next_cpu = int c,
               next_ts = ev_ts (hd (b ! c)), next_lost = ev_lost (hd (b ! c))\<rparr>"
      "\<forall>j<length b. b ! j \<noteq> [] \<longrightarrow> ev_ts (hd (b ! c)) \<le> ev_ts (hd (b ! j))"
      "\<forall>j<c. b ! j \<noteq> [] \<longrightarrow> ev_ts (hd (b ! c)) < ev_ts (hd (b ! j))"
    unfolding picks_def by (auto split: if_splits)
  have "ring_buffer_peek b c = Some (hd (b ! c))" using c(1,2) by (simp add: peek_Some_iff)
  moreover have "\<forall>j e'. ring_buffer_peek b j = Some e' \<longrightarrow> ev_ts (hd (b ! c)) \<le> ev_ts e'"
    using c(4) by (simp add: peek_Some_iff)
  moreover have "\<forall>j e'. j < c \<and> ring_buffer_peek b j = Some e' \<longrightarrow> ev_ts (hd (b ! c)) < ev_ts e'"
    using c(5) by (simp add: peek_Some_iff)
  moreover have "merge_consume b = b[c := tl (b ! c)]"
    using c(1,2,3) by (simp add: merge_consume_def consume_pick)
  moreover have "drain (Suc k) b = ev_ts (hd (b ! c)) # drain k (merge_consume b)"
    using ne c(3) by (simp add: drain_Suc del: drain.simps)
  ultimately show "\<exists>c e. ring_buffer_peek b c = Some e \<and>
         find_next_entry b =
           \<lparr>nxt = Some (ev_data e), next_cpu = int c, next_ts = ev_ts e, next_lost = ev_lost e\<rparr> \<and>
         (\<forall>j e'. ring_buffer_peek b j = Some e' \<longrightarrow> ev_ts e \<le> ev_ts e') \<and>
         (\<forall>j e'. j < c \<and> ring_buffer_peek b j = Some e' \<longrightarrow> ev_ts e < ev_ts e') \<and>
         merge_consume b = b[c := tl (b ! c)] \<and>
         drain (Suc k) b = ev_ts e # drain k (merge_consume b)"
    using c(3) by blast
next
  assume e: "is_trace_empty b"
  then have "\<forall>j<length b. b ! j = []" by (simp add: is_trace_empty_iff)
  with find_next_entry_picks[of b]
  show "find_next_entry b = \<lparr>nxt = None, next_cpu = - 1, next_ts = 0, next_lost = 0\<rparr>"
    by (simp add: picks_def scan_init_def)
  show "merge_consume b = b" using e by (rule merge_consume_empty)
  show "drain k b = []" using e by (rule drain_empty)
  show "format_loop (Suc n) P cls cnt (it, b) = Some (trace_next_entry_inc it b, b)"
    using e by (simp add: format_iteration_empty)
next
  assume a: "nxt (find_next_entry b) = Some ent \<and>
    fst (print_trace_fmt_line P cls (iter_seq it) ent) \<noteq> TRACE_TYPE_PARTIAL_LINE \<and>
    fst (print_trace_fmt_line P cls (iter_seq it) ent) \<noteq> TRACE_TYPE_NO_CONSUME"
  then obtain it1 where "format_iteration P cls cnt (it, b) =
            (if cnt \<le> trace_seq_used P (snd (print_trace_fmt_line P cls (iter_seq it) ent))
             then Break (it1, merge_consume b) else Continue (it1, merge_consume b))"
      "iter_ent it1 = Some ent" "iter_ts it1 = next_ts (find_next_entry b)"
    using format_iteration_consumes[of b ent P cls it cnt] by blast
  then show "\<exists>it1. (format_iteration P cls cnt (it, b) = Break (it1, merge_consume b) \<or>
              format_iteration P cls cnt (it, b) = Continue (it1, merge_consume b)) \<and>
             iter_ent it1 = Some ent \<and> iter_ts it1 = next_ts (find_next_entry b)"
    by (cases "cnt \<le> trace_seq_used P (snd (print_trace_fmt_line P cls (iter_seq it) ent))") auto
next
  assume "format_loop n P cls cnt (it, b) = Some (it', b')"
  then show "\<exists>i\<le>n. b' = rb_after i b"
    and "is_trace_empty b' \<and> iter_ent it' = None \<or>
       cnt \<le> trace_seq_used P (iter_seq it') \<or>
       iter_ent it' \<noteq> None \<and> iter_ent it' = nxt (find_next_entry b')"
    by (rule format_loop_after, rule format_loop_exit)
next
  assume "(\<forall>c\<in>set cls. \<forall>s e. fst (format c s e) \<noteq> TRACE_TYPE_NO_CONSUME) \<and> rb_events b \<le> n"
  then show "\<exists>it1 b1. format_loop (Suc n) P cls cnt (it, b) = Some (it1, b1)"
    using format_loop_returns[of cls b n P cnt it] by blast
next
  assume a: "waits w = [] \<and> trace_read_pipe n P cls f_flags ubuf cnt w = Some (r, out, w')"
  then have "waits w' = [] \<and> (\<exists>i. rb w' = rb_after i (rb w))"
    using read_pipe_after[of n P cls f_flags ubuf cnt w r out w'] by blast
  then show "waits w' = []" and "\<exists>i. rb w' = rb_after i (rb w)" by blast+
next
  assume a: "cnt \<noteq> 0 \<and> seq_len (iter_seq (iter w)) \<le> seq_readpos (iter_seq (iter w)) \<and>
    \<not> fatal_signal w \<and> \<not> is_trace_empty (rb w) \<and> cnt < P \<and>
    format_loop (Suc n) P cls cnt (iter_reset (iter w), rb w) = Some (it', b') \<and>
    seq_readpos (iter_seq it') < seq_len (iter_seq it')"
  then obtain w1 where "trace_read_pipe (Suc n) P cls f_flags ubuf cnt w =
              Some (fst (trace_seq_to_user P (iter_seq it') ubuf cnt),
                    fst (snd (trace_seq_to_user P (iter_seq it') ubuf cnt)), w1)" "rb w1 = b'"
    using read_pipe_delivers[of cnt w P n cls it' b' f_flags ubuf] by blast
  moreover from a have "\<exists>i\<le>Suc n. b' = rb_after i (rb w)"
    using format_loop_after[of "Suc n" P cls cnt "iter_reset (iter w)" "rb w" it' b'] by blast
  ultimately show "\<exists>w1. trace_read_pipe (Suc n) P cls f_flags ubuf cnt w =
              Some (fst (trace_seq_to_user P (iter_seq it') ubuf cnt),
                    fst (snd (trace_seq_to_user P (iter_seq it') ubuf cnt)), w1) \<and>
            rb w1 = b' \<and> (\<exists>i\<le>Suc n. b' = rb_after i (rb w))"
    by blast
next
  show "drain (k + j) b = drain k b @ drain j (rb_after k b)" by (rule drain_add)
  show "rb_after (k + j) b = rb_after j (rb_after k b)" by (rule rb_after_add)
  show "length (drain k b) = min k (rb_events b)" by (rule drain_length_min)
  show "rb_events (rb_after k b) = rb_events b - k" by (rule rb_events_after)
next
  assume o: "rb_ordered b"
  then show "sorted (drain k b)" by (rule drain_sorted)
  show "rb_ordered (rb_after k b)" using o by (rule rb_ordered_after)
  show "\<forall>t\<in>set (drain k b). all_ge t (rb_after k b)" using o by (rule drain_le_rest)
qed

lemma ex_rb_find3:
  "find_next_entry ex_rb =
     \<lparr>nxt = Some \<lparr>entry_id = 2, payload = []\<rparr>, next_cpu = int 1, next_ts = 3, next_lost = 0\<rparr>"
  "find_next_entry [[ex_event 5 1, ex_event 7 1], []] =
     \<lparr>nxt = Some \<lparr>entry_id = 1, payload = []\<rparr>, next_cpu = int 0, next_ts = 5, next_lost = 0\<rparr>"
  "find_next_entry [[ex_event 7 1], []] =
     \<lparr>nxt = Some \<lparr>entry_id = 1, payload = []\<rparr>, next_cpu = int 0, next_ts = 7, next_lost = 0\<rparr>"
  by (simp_all add: find_defs ex_rb_def)

lemma ex_rb_consume:
  "ring_buffer_consume ex_rb 1 = (Some (ex_event 3 2), [[ex_event 5 1, ex_event 7 1], []])"
  "ring_buffer_consume [[ex_event 5 1, ex_event 7 1], []] 0 = (Some (ex_event 5 1), [[ex_event 7 1], []])"
  "ring_buffer_consume [[ex_event 7 1], []] 0 = (Some (ex_event 7 1), [[], []])"
  "ring_buffer_consume ex_rb (Suc 0) = (Some (ex_event 3 2), [[ex_event 5 1, ex_event 7 1], []])"
  by (simp_all add: ring_buffer_consume_def ex_rb_def)

lemma ex_rb_nonempty: "\<not> is_trace_empty ex_rb"
  by (simp add: is_trace_empty_def for_each_possible_cpu_def ex_rb_def
      ring_buffer_empty_cpu_def upt_rec)

lemma ex_rb_loop:
  "format_loop (Suc 3) 4096 [ex_class] 100 (iter_reset it, ex_rb) =
     Some (\<lparr>iter_seq = \<lparr>seq_buffer = ''Unknown id 2\<newline>Unknown id 1\<newline>Unknown id 1\<newline>'',
                          seq_len = 39, seq_readpos = 0, seq_full = False\<rparr>,
             iter_ent = None, iter_lost_events = 0, iter_cpu = - 1, iter_ts = 0\<rparr>, [[], []])"
proof -
  have four: "Suc 3 = Suc (Suc (Suc (Suc 0)))" by simp
  have p1: "format_iteration 4096 [ex_class] 100 (iter_reset it, ex_rb) =
      Continue (\<lparr>iter_seq = \<lparr>seq_buffer = ''Unknown id 2\<newline>'', seq_len = 13, seq_readpos = 0,
                              seq_full = False\<rparr>,
                 iter_ent = Some \<lparr>entry_id = 2, payload = []\<rparr>, iter_lost_events = 0,
                 iter_cpu = 1, iter_ts = 3\<rparr>, [[ex_event 5 1, ex_event 7 1], []])"
    using fallback_pass[OF ex_rb_find3(1) ex_rb_consume(1) _ small_lines(2), where cls = "[ex_class]",
        where tx = "[]", where n = 0, where m = 13, where P = 4096, where cnt = 100]
    by (simp add: ex_event_sel iter_reset_eq)
  have p2: "format_iteration 4096 [ex_class] 100
       (\<lparr>iter_seq = \<lparr>seq_buffer = ''Unknown id 2\<newline>'', seq_len = 13, seq_readpos = 0,
                     seq_full = False\<rparr>,
                 iter_ent = x, iter_lost_events = y, iter_cpu = z, iter_ts = u\<rparr>,
        [[ex_event 5 1, ex_event 7 1], []]) =
      Continue (\<lparr>iter_seq = \<lparr>seq_buffer = ''Unknown id 2\<newline>Unknown id 1\<newline>'', seq_len = 26,
                     seq_readpos = 0, seq_full = False\<rparr>,
                 iter_ent = Some \<lparr>entry_id = 1, payload = []\<rparr>, iter_lost_events = 0,
                 iter_cpu = 0, iter_ts = 5\<rparr>, [[ex_event 7 1], []])" for x y z u
    using fallback_pass[OF ex_rb_find3(2) ex_rb_consume(2) _ small_lines(1), where cls = "[ex_class]",
        where tx = "''Unknown id 2\<newline>''", where n = 13, where m = 13, where P = 4096, where cnt = 100]
    by (simp add: ex_event_sel)
  have p3: "format_iteration 4096 [ex_class] 100
       (\<lparr>iter_seq = \<lparr>seq_buffer = ''Unknown id 2\<newline>Unknown id 1\<newline>'', seq_len = 26,
                     seq_readpos = 0, seq_full = False\<rparr>,
                 iter_ent = x, iter_lost_events = y, iter_cpu = z, iter_ts = u\<rparr>,
        [[ex_event 7 1], []]) =
      Continue (\<lparr>iter_seq = \<lparr>seq_buffer = ''Unknown id 2\<newline>Unknown id 1\<newline>Unknown id 1\<newline>'',
                     seq_len = 39, seq_readpos = 0, seq_full = False\<rparr>,
                 iter_ent = Some \<lparr>entry_id = 1, payload = []\<rparr>, iter_lost_events = 0,
                 iter_cpu = 0, iter_ts = 7\<rparr>, [[], []])" for x y z u
    using fallback_pass[OF ex_rb_find3(3) ex_rb_consume(3) _ small_lines(1), where cls = "[ex_class]",
        where tx = "''Unknown id 2\<newline>Unknown id 1\<newline>''", where n = 26, where m = 13,
        where P = 4096, where cnt = 100]
    by (simp add: ex_event_sel)
  show ?thesis
    unfolding four
    by (simp add: p1 p2 p3 empty_pass[OF unordered_find(4)] del: One_nat_def)
qed

lemma ex_rb_read:
  "trace_read_pipe 4 4096 [ex_class] 0 100 100 (ex_world [] ex_rb False) =
     Some (39, ''Unknown id 2\<newline>Unknown id 1\<newline>Unknown id 1\<newline>'',
           \<lparr>rb = [[], []],
              iter = \<lparr>iter_seq = \<lparr>seq_buffer = ''Unknown id 2\<newline>Unknown id 1\<newline>Unknown id 1\<newline>'',
                                    seq_len = 0, seq_readpos = 0, seq_full = False\<rparr>,
                       iter_ent = None, iter_lost_events = 0, iter_cpu = - 1, iter_ts = 0\<rparr>,
              fatal_signal = False, waits = []\<rparr>)"
proof -
  have four: "(4::nat) = Suc 3" by simp
  show ?thesis
    unfolding four
    using read_fresh[OF ex_rb_nonempty ex_rb_loop, where ubuf = 100] by simp
qed

lemma ex_rb_after: "rb_after 3 ex_rb = [[], []]" "merge_consume ex_rb = [[ex_event 5 1, ex_event 7 1], []]"
proof -
  have three: "(3::nat) = Suc (Suc (Suc 0))" by simp
  show "rb_after 3 ex_rb = [[], []]"
    unfolding three
    by (simp add: merge_consume_def ex_rb_find3 ex_rb_consume del: One_nat_def)
  show "merge_consume ex_rb = [[ex_event 5 1, ex_event 7 1], []]"
    by (simp add: merge_consume_def ex_rb_find3 ex_rb_consume del: One_nat_def)
qed

lemma unordered_after: "rb_after 3 unordered_rb = [[], []]"
proof -
  have three: "(3::nat) = Suc (Suc (Suc 0))" by simp
  have c1: "ring_buffer_consume unordered_rb (Suc 0) =
      (Some (ex_event 4 4), [[ex_event 9 9, ex_event 2 2], []])"
    using unordered_consume(1) by simp
  show ?thesis
    unfolding three
    by (simp add: merge_consume_def unordered_find unordered_consume c1)
qed

lemma ex_class_consumes: "\<forall>c\<in>set [ex_class]. \<forall>s e. fst (format c s e) \<noteq> TRACE_TYPE_NO_CONSUME"
  by (simp add: ex_class_def ex_fmt_def Let_def trace_handle_return_def)

text \<open>
  The example store, with one registered class: the merge takes the record of CPU 1 with
  time stamp 3 first, the records leave in the order 3, 5, 7, and one read call formats
  the three fallback lines in that order and leaves the store empty.
\<close>

theorem find_next_entry_earliest_witness:
  "\<not> is_trace_empty ex_rb \<and> rb_ordered ex_rb \<and> rb_events ex_rb \<le> 3 \<and>
   next_cpu (find_next_entry ex_rb) = 1 \<and> next_ts (find_next_entry ex_rb) = 3 \<and>
   nxt (find_next_entry ex_rb) = Some \<lparr>entry_id = 2, payload = []\<rparr> \<and>
   merge_consume ex_rb = [[ex_event 5 1, ex_event 7 1], []] \<and>
   drain 3 ex_rb = [3, 5, 7] \<and> sorted (drain 3 ex_rb) \<and>
   rb_after 3 ex_rb = [[], []] \<and> rb_ordered (rb_after 3 ex_rb) \<and>
   length (drain 3 ex_rb) = min 3 (rb_events ex_rb) \<and>
   is_trace_empty ex_empty_rb \<and>
   find_next_entry ex_empty_rb = \<lparr>nxt = None, next_cpu = - 1, next_ts = 0, next_lost = 0\<rparr> \<and>
   fst (print_trace_fmt_line 4096 [ex_class] (iter_seq (iter_reset (ex_iter [])))
          \<lparr>entry_id = 2, payload = []\<rparr>) = TRACE_TYPE_HANDLED \<and>
   (\<exists>it1. format_iteration 4096 [ex_class] 100 (iter_reset (ex_iter []), ex_rb)
            = Continue (it1, merge_consume ex_rb) \<and> iter_ts it1 = 3) \<and>
   (\<exists>it1 b1. format_loop (Suc 3) 4096 [ex_class] 100 (iter_reset (ex_iter []), ex_rb) = Some (it1, b1)) \<and>
   format_loop (Suc 3) 4096 [ex_class] 100 (iter_reset (ex_iter []), ex_rb) =
     Some (ex_drained_iter, rb_after 3 ex_rb) \<and>
   seq_readpos (iter_seq ex_drained_iter) < seq_len (iter_seq ex_drained_iter) \<and>
   (\<exists>w1. trace_read_pipe (Suc 3) 4096 [ex_class] 0 100 100 (ex_world [] ex_rb False) =
      Some (fst (trace_seq_to_user 4096 (iter_seq ex_drained_iter) 100 100),
            fst (snd (trace_seq_to_user 4096 (iter_seq ex_drained_iter) 100 100)), w1) \<and>
      rb w1 = [[], []] \<and> (\<exists>i\<le>Suc 3. [[], []] = rb_after i (rb (ex_world [] ex_rb False)))) \<and>
   waits (ex_world [] ex_rb False) = [] \<and>
   trace_read_pipe (Suc 3) 4096 [ex_class] 0 100 100 (ex_world [] ex_rb False) =
     Some (39, ''Unknown id 2\<newline>Unknown id 1\<newline>Unknown id 1\<newline>'',
           \<lparr>rb = [[], []],
              iter = \<lparr>iter_seq = \<lparr>seq_buffer = ''Unknown id 2\<newline>Unknown id 1\<newline>Unknown id 1\<newline>'',
                                    seq_len = 0, seq_readpos = 0, seq_full = False\<rparr>,
                       iter_ent = None, iter_lost_events = 0, iter_cpu = - 1, iter_ts = 0\<rparr>,
              fatal_signal = False, waits = []\<rparr>) \<and>
   (\<exists>i. [[], []] = rb_after i ex_rb)"
proof -
  let ?e = "\<lparr>entry_id = 2, payload = []\<rparr>"
  let ?it = "iter_reset (ex_iter [])"
  let ?w = "ex_world [] ex_rb False"
  let ?w' = "\<lparr>rb = [[], []],
              iter = \<lparr>iter_seq = \<lparr>seq_buffer = ''Unknown id 2\<newline>Unknown id 1\<newline>Unknown id 1\<newline>'',
                                    seq_len = 0, seq_readpos = 0, seq_full = False\<rparr>,
                       iter_ent = None, iter_lost_events = 0, iter_cpu = - 1, iter_ts = 0\<rparr>,
              fatal_signal = False, waits = []\<rparr>"
  have four: "(4::nat) = Suc 3" by simp
  have ord: "rb_ordered ex_rb" by (simp add: rb_ordered_def ex_rb_def ex_event_def)
  have ev: "rb_events ex_rb = 3" by (simp add: rb_events_def ex_rb_def)
  have nx: "nxt (find_next_entry ex_rb) = Some ?e" by (simp add: ex_rb_find3)
  have hd: "fst (print_trace_fmt_line 4096 [ex_class] (iter_seq ?it) ?e) = TRACE_TYPE_HANDLED"
    by (simp add: print_trace_fmt_line_def find_print_event_def Let_def iter_reset_seq
        trace_seq_has_overflowed_def trace_seq_printf_def trace_handle_return_def
        small_lines[simplified])
  have lp: "format_loop (Suc 3) 4096 [ex_class] 100 (?it, ex_rb) = Some (ex_drained_iter, [[], []])"
    unfolding ex_drained_iter_def by (rule ex_rb_loop)
  have rp: "seq_readpos (iter_seq ex_drained_iter) < seq_len (iter_seq ex_drained_iter)"
    by (simp add: ex_drained_iter_def)
  have rd: "trace_read_pipe (Suc 3) 4096 [ex_class] 0 100 100 ?w = Some (39,
      ''Unknown id 2\<newline>Unknown id 1\<newline>Unknown id 1\<newline>'', ?w')"
    using ex_rb_read by (simp only: four)
  have wq: "waits ?w = []" by (simp add: ex_world_sel)
  have h4: "nxt (find_next_entry ex_rb) = Some ?e \<and>
      fst (print_trace_fmt_line 4096 [ex_class] (iter_seq ?it) ?e) \<noteq> TRACE_TYPE_PARTIAL_LINE \<and>
      fst (print_trace_fmt_line 4096 [ex_class] (iter_seq ?it) ?e) \<noteq> TRACE_TYPE_NO_CONSUME"
    by (simp add: nx hd)
  have h6: "(\<forall>c\<in>set [ex_class]. \<forall>s e. fst (format c s e) \<noteq> TRACE_TYPE_NO_CONSUME) \<and>
      rb_events ex_rb \<le> 3"
    using ex_class_consumes ev by simp
  have h7: "waits ?w = [] \<and> trace_read_pipe (Suc 3) 4096 [ex_class] 0 100 100 ?w = Some (39,
      ''Unknown id 2\<newline>Unknown id 1\<newline>Unknown id 1\<newline>'', ?w')"
    using wq rd by simp
  have ir: "iter_reset (iter ?w) = ?it" by (simp add: iter_reset_eq)
  have h8: "(100::nat) \<noteq> 0 \<and> seq_len (iter_seq (iter ?w)) \<le> seq_readpos (iter_seq (iter ?w)) \<and>
      \<not> fatal_signal ?w \<and> \<not> is_trace_empty (rb ?w) \<and> (100::nat) < 4096 \<and>
      format_loop (Suc 3) 4096 [ex_class] 100 (iter_reset (iter ?w), rb ?w)
        = Some (ex_drained_iter, [[], []]) \<and>
      seq_readpos (iter_seq ex_drained_iter) < seq_len (iter_seq ex_drained_iter)"
    unfolding ir using ex_rb_nonempty lp rp by (simp add: ex_world_sel ex_iter_def)
  note i1 = find_next_entry_earliest[where b = ex_rb, where k = 3, where n = 3, where P = 4096,
      where cls = "[ex_class]", where cnt = 100, where it = ?it, where ent = ?e]
  note i2 = find_next_entry_earliest[where b = ex_rb, where k = 3, where n = "Suc 3", where P = 4096,
      where cls = "[ex_class]", where cnt = 100, where it = ?it, where it' = ex_drained_iter,
      where b' = "[[], []]", where w = ?w, where w' = ?w', where f_flags = 0, where ubuf = 100,
      where r = 39,
      where out = "''Unknown id 2\<newline>Unknown id 1\<newline>Unknown id 1\<newline>''"]
  note i3 = find_next_entry_earliest[where b = ex_empty_rb]
  note i4 = find_next_entry_earliest[where n = 3, where P = 4096,
      where cls = "[ex_class]", where cnt = 100, where it' = ex_drained_iter,
      where b' = "[[], []]", where w = ?w, where f_flags = 0, where ubuf = 100]
  note c12 = i1[THEN conjunct2, THEN conjunct2, THEN conjunct2, THEN conjunct2, THEN conjunct2,
      THEN conjunct2, THEN conjunct2, THEN conjunct2, THEN conjunct2, THEN conjunct2, THEN conjunct2,
      THEN conjunct2, THEN mp, OF ord]
  from c12 have so: "sorted (drain 3 ex_rb)" "rb_ordered (rb_after 3 ex_rb)" by blast+
  note c10 = i1[THEN conjunct2, THEN conjunct2, THEN conjunct2, THEN conjunct2, THEN conjunct2,
      THEN conjunct2, THEN conjunct2, THEN conjunct2, THEN conjunct2, THEN conjunct2, THEN conjunct1]
  from c10 have ln: "length (drain 3 ex_rb) = min 3 (rb_events ex_rb)" .
  note c3 = i3[THEN conjunct2, THEN conjunct2, THEN conjunct1, THEN mp, OF ex_empty]
  from c3
  have em: "find_next_entry ex_empty_rb = \<lparr>nxt = None, next_cpu = - 1, next_ts = 0, next_lost = 0\<rparr>"
    by blast
  note c4 = i1[THEN conjunct2, THEN conjunct2, THEN conjunct2, THEN conjunct1, THEN mp, OF h4]
  from c4 obtain it1 where it1:
      "format_iteration 4096 [ex_class] 100 (?it, ex_rb) = Break (it1, merge_consume ex_rb) \<or>
       format_iteration 4096 [ex_class] 100 (?it, ex_rb) = Continue (it1, merge_consume ex_rb)"
      "iter_ts it1 = next_ts (find_next_entry ex_rb)"
    by blast
  have pass: "\<exists>it1. format_iteration 4096 [ex_class] 100 (?it, ex_rb)
            = Continue (it1, merge_consume ex_rb) \<and> iter_ts it1 = 3"
  proof -
    have "format_iteration 4096 [ex_class] 100 (?it, ex_rb) \<noteq> Break (it1, merge_consume ex_rb)"
      using fallback_pass[OF ex_rb_find3(1) ex_rb_consume(1) _ small_lines(2), where cls = "[ex_class]",
        where tx = "[]", where n = 0, where m = 13, where P = 4096, where cnt = 100]
      by (simp add: iter_reset_eq)
    with it1 show ?thesis by (auto simp: ex_rb_find3)
  qed
  note c6 = i1[THEN conjunct2, THEN conjunct2, THEN conjunct2, THEN conjunct2, THEN conjunct2,
      THEN conjunct1, THEN mp, OF h6]
  from c6
  have tot: "\<exists>it1 b1. format_loop (Suc 3) 4096 [ex_class] 100 (?it, ex_rb) = Some (it1, b1)" .
  note c5 = i2[THEN conjunct2, THEN conjunct2, THEN conjunct2, THEN conjunct2, THEN conjunct1,
      THEN mp, OF lp]
  from c5 have af: "\<exists>i\<le>Suc 3. [[], []] = rb_after i ex_rb" by blast
  note c7 = i2[THEN conjunct2, THEN conjunct2, THEN conjunct2, THEN conjunct2, THEN conjunct2,
      THEN conjunct2, THEN conjunct1, THEN mp, OF h7]
  from c7 have "\<exists>i. rb ?w' = rb_after i (rb ?w)" by blast
  then have aft: "\<exists>i. [[], []] = rb_after i ex_rb" by (simp add: ex_world_sel)
  note c8 = i4[THEN conjunct2, THEN conjunct2, THEN conjunct2, THEN conjunct2, THEN conjunct2,
      THEN conjunct2, THEN conjunct2, THEN conjunct1, THEN mp, OF h8]
  have a1: "next_cpu (find_next_entry ex_rb) = 1" "next_ts (find_next_entry ex_rb) = 3"
    by (simp_all add: ex_rb_find3)
  have a2: "rb_events ex_rb \<le> 3" using ev by simp
  have a3: "format_loop (Suc 3) 4096 [ex_class] 100 (?it, ex_rb) = Some (ex_drained_iter, rb_after 3 ex_rb)"
    using lp by (simp only: ex_rb_after)
  show ?thesis
    using ex_rb_nonempty ord a2 a1 nx ex_rb_after(2) ex_rb_drain so ex_rb_after(1) ln ex_empty em hd
      pass tot a3 rp c8 wq rd aft
    by (intro conjI)
qed

text \<open>
  The claim as stated fails: on a store whose CPU 0 holds a record with time stamp 9
  before one with time stamp 2, a read call consumes the records with time stamps 4, 9
  and 2 in that order (each record's id is its time stamp, so the lines it delivers
  show the order).
\<close>

theorem unordered_store_read_out_of_order:
  "\<not> rb_ordered unordered_rb \<and>
   trace_read_pipe 4 4096 [] 0 100 100 (ex_world [] unordered_rb False) =
     Some (39, ''Unknown id 4\<newline>Unknown id 9\<newline>Unknown id 2\<newline>'',
           \<lparr>rb = [[], []],
              iter = \<lparr>iter_seq = \<lparr>seq_buffer = ''Unknown id 4\<newline>Unknown id 9\<newline>Unknown id 2\<newline>'',
                                    seq_len = 0, seq_readpos = 0, seq_full = False\<rparr>,
                       iter_ent = None, iter_lost_events = 0, iter_cpu = - 1, iter_ts = 0\<rparr>,
              fatal_signal = False, waits = []\<rparr>) \<and>
   rb_after 3 unordered_rb = [[], []] \<and>
   drain 3 unordered_rb = [4, 9, 2] \<and>
   \<not> sorted (drain 3 unordered_rb)"
proof -
  have "\<not> rb_ordered unordered_rb" by (simp add: rb_ordered_def unordered_rb_def ex_event_def)
  moreover have "\<not> sorted (drain 3 unordered_rb)" by (simp add: unordered_drain)
  ultimately show ?thesis using unordered_read unordered_after unordered_drain by simp
qed

end
